theory Spec2Isabelle
  imports Complex_Main
begin

section \<open>Die yield calculator: a shallow embedding of the simulation engine\<close>

text \<open>
  The engine of \<^verbatim>\<open>src/app.py\<close> (\<^verbatim>\<open>src/v1/app.py\<close> holds the same utility
  functions): the inside tests, the yield models, the geometry builder, the corner classifier,
  defect injection and the Monte Carlo runner.

  Numbers: a finite Python \<^verbatim>\<open>float\<close> is the \<^typ>\<open>real\<close> number it stands for. The inside
  tests of the classifier, the dice count of a shot and the yield models are given in double
  arithmetic: every operation rounds to the nearest double, and an overflow gives an infinity
  or raises, as Python does. The shot origins and the die coordinates of the geometry builder
  and a second copy of the yield models are given over the reals. Die coordinates, substrate
  parameters and the other inputs are finite, and the two zeros of the doubles are one. Python's
  \<^verbatim>\<open>int\<close> values are \<^typ>\<open>int\<close> (or \<^typ>\<open>nat\<close> for counters that only count up from 0).
  Exceptions are values: a function that can raise returns \<open>error + 'a\<close> with \<open>Inl\<close> the
  exception.
\<close>

subsection \<open>Data\<close>

datatype error = KeyError string | ZeroDivisionError | ValueError | OverflowError

text \<open>
  A die is the dictionary \<^verbatim>\<open>{"x": ..., "y": ..., "corners": [...], "status": ...}\<close>.
  The status is a Python string and stays one here.
\<close>

record die =
  die_x :: real
  die_y :: real
  corners :: "(real \<times> real) list"
  status :: string

text \<open>\<^verbatim>\<open>substrate_params\<close> is a dictionary from key names to numbers; reading a key that is
  absent raises \<^verbatim>\<open>KeyError\<close>.\<close>

type_synonym params = "string \<rightharpoonup> real"

definition getitem :: "params \<Rightarrow> string \<Rightarrow> error + real" where
  "getitem m k = (case m k of None \<Rightarrow> Inl (KeyError k) | Some v \<Rightarrow> Inr v)"

subsection \<open>Double arithmetic\<close>

text \<open>
  IEEE 754 binary64 with rounding to nearest, ties to even. \<open>binade n x\<close> is the exponent \<open>e\<close>
  with \<open>2\<^sup>e \<le> x < 2\<^sup>e\<^sup>+\<^sup>1\<close>, searched in at most \<open>n\<close> steps; \<open>fl x\<close> is the double nearest to \<open>x\<close>
  (with the subnormal spacing \<open>2\<^sup>-\<^sup>1\<^sup>0\<^sup>7\<^sup>4\<close> below \<open>2\<^sup>-\<^sup>1\<^sup>0\<^sup>2\<^sup>2\<close>), for \<open>x\<close> that does not overflow;
  \<open>overflows x\<close> says that \<open>x\<close> rounds to an infinity, which is from the midpoint between the
  largest double and \<open>2\<^sup>1\<^sup>0\<^sup>2\<^sup>4\<close> on.
\<close>

fun binade :: "nat \<Rightarrow> real \<Rightarrow> int" where
  "binade 0 x = 0"
| "binade (Suc n) x =
     (if 2 \<le> x then binade n (x / 2) + 1
      else if x < 1 then binade n (2 * x) - 1
      else 0)"

definition round_half_even :: "real \<Rightarrow> int" where
  "round_half_even m =
     (let f = \<lfloor>m\<rfloor>; d = m - of_int f
      in if d < 1 / 2 then f else if 1 / 2 < d then f + 1 else if even f then f else f + 1)"

definition fl :: "real \<Rightarrow> real" where
  "fl x =
     (if x = 0 then 0
      else let a = \<bar>x\<bar>;
               e = (if a < 2 powi (- 1022) then - 1022 else binade 1100 a);
               q = 2 powi (e - 52)
           in sgn x * of_int (round_half_even (a / q)) * q)"

definition overflows :: "real \<Rightarrow> bool" where
  "overflows x \<longleftrightarrow> 2 ^ 1024 - 2 ^ 970 \<le> \<bar>x\<bar>"

text \<open>A Python float: a finite double, an infinity or NaN.\<close>

datatype pyfloat = Fin real | PInf | NInf | NaN

definition rnd :: "real \<Rightarrow> pyfloat" where
  "rnd x = (if overflows x then (if 0 < x then PInf else NInf) else Fin (fl x))"

fun fneg :: "pyfloat \<Rightarrow> pyfloat" where
  "fneg (Fin a) = Fin (- a)"
| "fneg PInf = NInf"
| "fneg NInf = PInf"
| "fneg NaN = NaN"

fun fadd :: "pyfloat \<Rightarrow> pyfloat \<Rightarrow> pyfloat" where
  "fadd (Fin a) (Fin b) = rnd (a + b)"
| "fadd NaN b = NaN"
| "fadd a NaN = NaN"
| "fadd PInf NInf = NaN"
| "fadd NInf PInf = NaN"
| "fadd PInf b = PInf"
| "fadd NInf b = NInf"
| "fadd a PInf = PInf"
| "fadd a NInf = NInf"

definition fsub :: "pyfloat \<Rightarrow> pyfloat \<Rightarrow> pyfloat" where
  "fsub a b = fadd a (fneg b)"

text \<open>The sign of a product or quotient with an infinite operand: \<open>signed_inf p\<close> is \<open>+\<infinity>\<close> when
  \<open>p\<close> holds.\<close>

definition signed_inf :: "bool \<Rightarrow> pyfloat" where
  "signed_inf p = (if p then PInf else NInf)"

fun fmul :: "pyfloat \<Rightarrow> pyfloat \<Rightarrow> pyfloat" where
  "fmul (Fin a) (Fin b) = rnd (a * b)"
| "fmul NaN b = NaN"
| "fmul a NaN = NaN"
| "fmul PInf (Fin b) = (if b = 0 then NaN else signed_inf (0 < b))"
| "fmul NInf (Fin b) = (if b = 0 then NaN else signed_inf (b < 0))"
| "fmul (Fin a) PInf = (if a = 0 then NaN else signed_inf (0 < a))"
| "fmul (Fin a) NInf = (if a = 0 then NaN else signed_inf (a < 0))"
| "fmul PInf PInf = PInf"
| "fmul PInf NInf = NInf"
| "fmul NInf PInf = NInf"
| "fmul NInf NInf = PInf"

text \<open>The quotient of two floats whose divisor is not zero; Python's \<^verbatim>\<open>/\<close> raises on a zero
  divisor before it divides.\<close>

fun fquot :: "pyfloat \<Rightarrow> pyfloat \<Rightarrow> pyfloat" where
  "fquot (Fin a) (Fin b) = (if b = 0 then NaN else rnd (a / b))"
| "fquot NaN b = NaN"
| "fquot a NaN = NaN"
| "fquot (Fin a) PInf = Fin 0"
| "fquot (Fin a) NInf = Fin 0"
| "fquot PInf (Fin b) = signed_inf (0 \<le> b)"
| "fquot NInf (Fin b) = signed_inf (b < 0)"
| "fquot PInf PInf = NaN"
| "fquot PInf NInf = NaN"
| "fquot NInf PInf = NaN"
| "fquot NInf NInf = NaN"

definition fdiv :: "pyfloat \<Rightarrow> pyfloat \<Rightarrow> error + pyfloat" where
  "fdiv a b = (if b = Fin 0 then Inl ZeroDivisionError else Inr (fquot a b))"

fun fle :: "pyfloat \<Rightarrow> pyfloat \<Rightarrow> bool" where
  "fle (Fin a) (Fin b) \<longleftrightarrow> a \<le> b"
| "fle NaN b \<longleftrightarrow> False"
| "fle a NaN \<longleftrightarrow> False"
| "fle NInf b \<longleftrightarrow> True"
| "fle a PInf \<longleftrightarrow> True"
| "fle PInf b \<longleftrightarrow> False"
| "fle a NInf \<longleftrightarrow> False"

fun flt :: "pyfloat \<Rightarrow> pyfloat \<Rightarrow> bool" where
  "flt (Fin a) (Fin b) \<longleftrightarrow> a < b"
| "flt NaN b \<longleftrightarrow> False"
| "flt a NaN \<longleftrightarrow> False"
| "flt PInf b \<longleftrightarrow> False"
| "flt a NInf \<longleftrightarrow> False"
| "flt NInf b \<longleftrightarrow> True"
| "flt a PInf \<longleftrightarrow> True"

text \<open>\<^verbatim>\<open>x ** 2\<close>: the C library's \<^verbatim>\<open>pow\<close>, taken as the correctly rounded square; Python raises
  \<^verbatim>\<open>OverflowError\<close> when the result of a finite operand overflows.\<close>

fun fpow2 :: "pyfloat \<Rightarrow> error + pyfloat" where
  "fpow2 (Fin a) = (if overflows (a\<^sup>2) then Inl OverflowError else Inr (Fin (fl (a\<^sup>2))))"
| "fpow2 PInf = Inr PInf"
| "fpow2 NInf = Inr PInf"
| "fpow2 NaN = Inr NaN"

text \<open>\<^verbatim>\<open>math.exp\<close> and \<^verbatim>\<open>math.sqrt\<close>, taken as correctly rounded: \<^verbatim>\<open>math.exp\<close> raises
  \<^verbatim>\<open>OverflowError\<close> when the result of a finite operand overflows, \<^verbatim>\<open>math.sqrt\<close> raises
  \<^verbatim>\<open>ValueError\<close> on a negative operand.\<close>

fun fexp :: "pyfloat \<Rightarrow> error + pyfloat" where
  "fexp (Fin a) = (if overflows (exp a) then Inl OverflowError else Inr (Fin (fl (exp a))))"
| "fexp PInf = Inr PInf"
| "fexp NInf = Inr (Fin 0)"
| "fexp NaN = Inr NaN"

fun fsqrt :: "pyfloat \<Rightarrow> error + pyfloat" where
  "fsqrt (Fin a) = (if a < 0 then Inl ValueError else Inr (Fin (fl (sqrt a))))"
| "fsqrt PInf = Inr PInf"
| "fsqrt NInf = Inl ValueError"
| "fsqrt NaN = Inr NaN"

text \<open>
  \<^verbatim>\<open>a // b\<close> on floats, as CPython's \<^verbatim>\<open>float_divmod\<close> computes it: the remainder by the C
  library's \<^verbatim>\<open>fmod\<close> (exact, with the sign of the dividend), the quotient \<^verbatim>\<open>(a - mod) / b\<close>,
  one less when the remainder and the divisor differ in sign, then snapped to the nearest
  integer. \<^verbatim>\<open>int\<close> raises \<^verbatim>\<open>ValueError\<close> on NaN and \<^verbatim>\<open>OverflowError\<close> on an infinity.
\<close>

fun ffmod :: "pyfloat \<Rightarrow> pyfloat \<Rightarrow> pyfloat" where
  "ffmod (Fin a) (Fin b) =
     (if b = 0 then NaN
      else Fin (a - b * of_int (if 0 \<le> a / b then \<lfloor>a / b\<rfloor> else \<lceil>a / b\<rceil>)))"
| "ffmod NaN b = NaN"
| "ffmod a NaN = NaN"
| "ffmod PInf b = NaN"
| "ffmod NInf b = NaN"
| "ffmod (Fin a) PInf = Fin a"
| "ffmod (Fin a) NInf = Fin a"

fun ffloor :: "pyfloat \<Rightarrow> pyfloat" where
  "ffloor (Fin a) = Fin (of_int \<lfloor>a\<rfloor>)"
| "ffloor PInf = PInf"
| "ffloor NInf = NInf"
| "ffloor NaN = NaN"

definition float_floordiv :: "pyfloat \<Rightarrow> pyfloat \<Rightarrow> error + pyfloat" where
  "float_floordiv vx wx =
     (if wx = Fin 0 then Inl ZeroDivisionError
      else
        let vmod = ffmod vx wx;
            div0 = fquot (fsub vx vmod) wx;
            vdiv = (if vmod \<noteq> Fin 0 \<and> (flt wx (Fin 0) \<noteq> flt vmod (Fin 0))
                    then fsub div0 (Fin 1) else div0)
        in if vdiv \<noteq> Fin 0 then
             (let floordiv = ffloor vdiv
              in if flt (Fin (1 / 2)) (fsub vdiv floordiv) then Inr (fadd floordiv (Fin 1))
                 else Inr floordiv)
           else Inr (Fin 0))"

fun float_to_int :: "pyfloat \<Rightarrow> error + int" where
  "float_to_int (Fin a) = Inr (if 0 \<le> a then \<lfloor>a\<rfloor> else \<lceil>a\<rceil>)"
| "float_to_int PInf = Inl OverflowError"
| "float_to_int NInf = Inl OverflowError"
| "float_to_int NaN = Inl ValueError"

subsection \<open>Utility functions\<close>

text \<open>
  \<^verbatim>\<open>(x**2 + y**2) <= effective_radius**2\<close> in double arithmetic: the two squares of the left
  side, their sum, then the square of the radius; each square may raise.
\<close>

definition is_inside_wafer :: "real \<Rightarrow> real \<Rightarrow> real \<Rightarrow> error + bool" where
  "is_inside_wafer x y effective_radius =
     (case fpow2 (Fin x) of
        Inl e \<Rightarrow> Inl e
      | Inr xx \<Rightarrow>
          (case fpow2 (Fin y) of
             Inl e \<Rightarrow> Inl e
           | Inr yy \<Rightarrow>
               (case fpow2 (Fin effective_radius) of
                  Inl e \<Rightarrow> Inl e
                | Inr rr \<Rightarrow> Inr (fle (fadd xx yy) rr))))"

definition is_inside_panel :: "real \<Rightarrow> real \<Rightarrow> real \<Rightarrow> real \<Rightarrow> real \<Rightarrow> bool" where
  "is_inside_panel x y panel_width panel_height margin \<longleftrightarrow>
     fle (Fin margin) (Fin x) \<and> fle (Fin x) (fsub (Fin panel_width) (Fin margin))
     \<and> fle (Fin margin) (Fin y) \<and> fle (Fin y) (fsub (Fin panel_height) (Fin margin))"

subsection \<open>Classifier\<close>

text \<open>
  The body of the loop over the corners in \<^verbatim>\<open>classify_die\<close>: the dictionary is read when
  the test of a corner is evaluated, the arguments of \<^verbatim>\<open>is_inside_panel\<close> left to right.
\<close>

definition corner_inside :: "string \<Rightarrow> params \<Rightarrow> real \<times> real \<Rightarrow> error + bool" where
  "corner_inside substrate_type substrate_params c =
     (case c of (cx, cy) \<Rightarrow>
        if substrate_type = ''Wafer'' then
          (case getitem substrate_params ''effective_radius'' of
             Inl e \<Rightarrow> Inl e
           | Inr r \<Rightarrow> is_inside_wafer cx cy r)
        else
          (case getitem substrate_params ''panel_width'' of
             Inl e \<Rightarrow> Inl e
           | Inr pw \<Rightarrow>
               (case getitem substrate_params ''panel_height'' of
                  Inl e \<Rightarrow> Inl e
                | Inr ph \<Rightarrow>
                    (case getitem substrate_params ''edge_loss'' of
                       Inl e \<Rightarrow> Inl e
                     | Inr m \<Rightarrow> Inr (is_inside_panel cx cy pw ph m)))))"

fun count_inside :: "string \<Rightarrow> params \<Rightarrow> (real \<times> real) list \<Rightarrow> nat \<Rightarrow> error + nat" where
  "count_inside substrate_type substrate_params [] inside_count = Inr inside_count"
| "count_inside substrate_type substrate_params (c # cs) inside_count =
     (case corner_inside substrate_type substrate_params c of
        Inl e \<Rightarrow> Inl e
      | Inr b \<Rightarrow>
          count_inside substrate_type substrate_params cs
            (if b then inside_count + 1 else inside_count))"

definition classify_die :: "die \<Rightarrow> string \<Rightarrow> params \<Rightarrow> error + string" where
  "classify_die d substrate_type substrate_params =
     (case count_inside substrate_type substrate_params (corners d) 0 of
        Inl e \<Rightarrow> Inl e
      | Inr inside_count \<Rightarrow>
          Inr (if inside_count = 4 then ''good_physical''
               else if inside_count > 0 then ''partial''
               else ''lost''))"

text \<open>
  Valid geometry and substrate inputs of the classifier and the runner: the keys that
  \<^verbatim>\<open>classify_die\<close> reads are there, and for a wafer the squares of the effective radius and of
  the corner coordinates of the base dice are in the range of the doubles.
\<close>

definition valid_inputs :: "die list \<Rightarrow> string \<Rightarrow> params \<Rightarrow> bool" where
  "valid_inputs base_dice substrate_type substrate_params \<longleftrightarrow>
     (if substrate_type = ''Wafer'' then
        (case substrate_params ''effective_radius'' of
           None \<Rightarrow> False
         | Some r \<Rightarrow>
             \<not> overflows (r\<^sup>2)
             \<and> (\<forall>d \<in> set base_dice. \<forall>c \<in> set (corners d).
                   \<not> overflows ((fst c)\<^sup>2) \<and> \<not> overflows ((snd c)\<^sup>2)))
      else ''panel_width'' \<in> dom substrate_params \<and> ''panel_height'' \<in> dom substrate_params
           \<and> ''edge_loss'' \<in> dom substrate_params)"

subsection \<open>Substrate parameters as the caller builds them\<close>

text \<open>
  \<^verbatim>\<open>main\<close> builds \<^verbatim>\<open>substrate_params\<close> from the inputs; for a wafer,
  \<^verbatim>\<open>radius = wafer_diameter / 2\<close> and \<^verbatim>\<open>effective_radius = radius - edge_loss\<close>.
\<close>

definition wafer_params :: "real \<Rightarrow> real \<Rightarrow> params" where
  "wafer_params wafer_diameter edge_loss =
     (let radius = wafer_diameter / 2;
          effective_radius = radius - edge_loss
      in [''radius'' \<mapsto> radius, ''effective_radius'' \<mapsto> effective_radius])"

definition panel_params :: "real \<Rightarrow> real \<Rightarrow> real \<Rightarrow> params" where
  "panel_params panel_width panel_height edge_loss =
     [''panel_width'' \<mapsto> panel_width, ''panel_height'' \<mapsto> panel_height,
      ''edge_loss'' \<mapsto> edge_loss]"

subsection \<open>Yield models\<close>

text \<open>
  The yield models, first as formulas over the reals: what \<^verbatim>\<open>compute_yield_fraction\<close> computes
  when no operation rounds. \<^verbatim>\<open>math.sqrt\<close> raises \<^verbatim>\<open>ValueError\<close> on a negative argument and the
  division of the Seeds model raises \<^verbatim>\<open>ZeroDivisionError\<close> when \<open>1 + D = 0\<close>.
\<close>

definition compute_yield_fraction :: "real \<Rightarrow> real \<Rightarrow> string \<Rightarrow> error + real" where
  "compute_yield_fraction defect_rate critical_area model =
     (let D = defect_rate * (critical_area / 100) in
      if model = ''Poisson'' then Inr (exp (- D))
      else if model = ''Murphy'' then
        Inr (if D \<noteq> 0 then ((1 - exp (- D)) / D)\<^sup>2 else 1)
      else if model = ''Rectangular'' then
        Inr (if D \<noteq> 0 then (1 - exp (- 2 * D)) / (2 * D) else 1)
      else if model = ''Moore'' then
        (if D < 0 then Inl ValueError else Inr (exp (- sqrt D)))
      else if model = ''Seeds'' then
        (if 1 + D = 0 then Inl ZeroDivisionError else Inr (1 / (1 + D)))
      else Inr (exp (- D)))"

text \<open>
  The same function in double arithmetic, operation by operation as Python evaluates it: the
  conditional expressions test \<^verbatim>\<open>D != 0\<close> first, and the integer literals are converted to
  floats.
\<close>

definition compute_yield_fraction_float :: "real \<Rightarrow> real \<Rightarrow> string \<Rightarrow> error + pyfloat" where
  "compute_yield_fraction_float defect_rate critical_area model =
     (case fdiv (Fin critical_area) (Fin 100) of
        Inl e \<Rightarrow> Inl e
      | Inr a \<Rightarrow>
          (let D = fmul (Fin defect_rate) a in
           if model = ''Poisson'' then fexp (fneg D)
           else if model = ''Murphy'' then
             (if D \<noteq> Fin 0 then
                (case fexp (fneg D) of
                   Inl e \<Rightarrow> Inl e
                 | Inr ex \<Rightarrow>
                     (case fdiv (fsub (Fin 1) ex) D of
                        Inl e \<Rightarrow> Inl e
                      | Inr q \<Rightarrow> fpow2 q))
              else Inr (Fin 1))
           else if model = ''Rectangular'' then
             (if D \<noteq> Fin 0 then
                (case fexp (fmul (Fin (- 2)) D) of
                   Inl e \<Rightarrow> Inl e
                 | Inr ex \<Rightarrow> fdiv (fsub (Fin 1) ex) (fmul (Fin 2) D))
              else Inr (Fin 1))
           else if model = ''Moore'' then
             (case fsqrt D of
                Inl e \<Rightarrow> Inl e
              | Inr s \<Rightarrow> fexp (fneg s))
           else if model = ''Seeds'' then fdiv (Fin 1) (fadd (Fin 1) D)
           else fexp (fneg D)))"

subsection \<open>Geometry builder\<close>

text \<open>
  \<^verbatim>\<open>np.arange(start, stop, step)\<close> is NumPy's strided range over a half-open interval:
  \<open>\<lceil>(stop - start) / step\<rceil>\<close> values \<open>start + k * step\<close>, none when that number is not
  positive; the length is a quotient by \<open>step\<close>.
\<close>

definition arange :: "real \<Rightarrow> real \<Rightarrow> real \<Rightarrow> error + real list" where
  "arange start stop step =
     (if step = 0 then Inl ZeroDivisionError
      else Inr (map (\<lambda>k. start + real k * step) [0..<nat \<lceil>(stop - start) / step\<rceil>]))"

text \<open>The dice count of a shot along one axis,
  \<^verbatim>\<open>int((shot_width + scribe_x) // (die_width + scribe_x))\<close>, in double arithmetic.\<close>

definition num_dice :: "real \<Rightarrow> real \<Rightarrow> real \<Rightarrow> error + int" where
  "num_dice shot_dim die_dim scribe =
     (case float_floordiv (fadd (Fin shot_dim) (Fin scribe)) (fadd (Fin die_dim) (Fin scribe)) of
        Inl e \<Rightarrow> Inl e
      | Inr q \<Rightarrow> float_to_int q)"

definition make_die :: "real \<Rightarrow> real \<Rightarrow> real \<Rightarrow> real \<Rightarrow> die" where
  "make_die x y die_width die_height =
     \<lparr>die_x = x, die_y = y,
      corners = [(x, y), (x + die_width, y), (x, y + die_height),
                 (x + die_width, y + die_height)],
      status = ''pending''\<rparr>"

text \<open>The two inner loops, over \<^verbatim>\<open>range(num_dice_x)\<close> and \<^verbatim>\<open>range(num_dice_y)\<close>; a
  range of a negative number is empty.\<close>

definition shot_dice ::
  "real \<Rightarrow> real \<Rightarrow> int \<Rightarrow> int \<Rightarrow> real \<Rightarrow> real \<Rightarrow> real \<Rightarrow> real \<Rightarrow> die list" where
  "shot_dice shot_x shot_y num_dice_x num_dice_y die_width die_height scribe_x scribe_y =
     concat (map (\<lambda>i. map (\<lambda>j.
         make_die (shot_x + real i * (die_width + scribe_x))
                  (shot_y + real j * (die_height + scribe_y)) die_width die_height)
       [0..<nat num_dice_y]) [0..<nat num_dice_x])"

text \<open>The body of the loop over the shots: the dice counts are computed in every shot, so a
  zero pitch raises only when there is a shot.\<close>

definition shot_body ::
  "real \<Rightarrow> real \<Rightarrow> real \<Rightarrow> real \<Rightarrow> real \<Rightarrow> real \<Rightarrow> real \<Rightarrow> real \<Rightarrow> die list
     \<Rightarrow> error + die list" where
  "shot_body shot_x shot_y shot_width shot_height die_width die_height scribe_x scribe_y
       dice_positions =
     (case num_dice shot_width die_width scribe_x of
        Inl e \<Rightarrow> Inl e
      | Inr num_dice_x \<Rightarrow>
          (case num_dice shot_height die_height scribe_y of
             Inl e \<Rightarrow> Inl e
           | Inr num_dice_y \<Rightarrow>
               Inr (dice_positions @
                    shot_dice shot_x shot_y num_dice_x num_dice_y
                      die_width die_height scribe_x scribe_y)))"

fun shot_loop_y ::
  "real \<Rightarrow> real list \<Rightarrow> real \<Rightarrow> real \<Rightarrow> real \<Rightarrow> real \<Rightarrow> real \<Rightarrow> real \<Rightarrow> die list
     \<Rightarrow> error + die list" where
  "shot_loop_y shot_x [] sw sh dw dh sx sy dice_positions = Inr dice_positions"
| "shot_loop_y shot_x (shot_y # ys) sw sh dw dh sx sy dice_positions =
     (case shot_body shot_x shot_y sw sh dw dh sx sy dice_positions of
        Inl e \<Rightarrow> Inl e
      | Inr dice_positions' \<Rightarrow> shot_loop_y shot_x ys sw sh dw dh sx sy dice_positions')"

fun shot_loop_x ::
  "real list \<Rightarrow> real list \<Rightarrow> real \<Rightarrow> real \<Rightarrow> real \<Rightarrow> real \<Rightarrow> real \<Rightarrow> real \<Rightarrow> die list
     \<Rightarrow> error + die list" where
  "shot_loop_x [] ys sw sh dw dh sx sy dice_positions = Inr dice_positions"
| "shot_loop_x (shot_x # xs) ys sw sh dw dh sx sy dice_positions =
     (case shot_loop_y shot_x ys sw sh dw dh sx sy dice_positions of
        Inl e \<Rightarrow> Inl e
      | Inr dice_positions' \<Rightarrow> shot_loop_x xs ys sw sh dw dh sx sy dice_positions')"

text \<open>The shot origins: \<open>[-radius, radius)\<close> on both axes for a wafer, \<open>[0, panel_width)\<close> and
  \<open>[0, panel_height)\<close> for every other substrate type.\<close>

definition shot_positions :: "string \<Rightarrow> params \<Rightarrow> real \<Rightarrow> real \<Rightarrow> error + (real list \<times> real list)" where
  "shot_positions substrate_type substrate_params shot_width shot_height =
     (if substrate_type = ''Wafer'' then
        (case getitem substrate_params ''radius'' of
           Inl e \<Rightarrow> Inl e
         | Inr radius \<Rightarrow>
             (case arange (- radius) radius shot_width of
                Inl e \<Rightarrow> Inl e
              | Inr shot_x_positions \<Rightarrow>
                  (case arange (- radius) radius shot_height of
                     Inl e \<Rightarrow> Inl e
                   | Inr shot_y_positions \<Rightarrow> Inr (shot_x_positions, shot_y_positions))))
      else
        (case getitem substrate_params ''panel_width'' of
           Inl e \<Rightarrow> Inl e
         | Inr panel_width \<Rightarrow>
             (case getitem substrate_params ''panel_height'' of
                Inl e \<Rightarrow> Inl e
              | Inr panel_height \<Rightarrow>
                  (case arange 0 panel_width shot_width of
                     Inl e \<Rightarrow> Inl e
                   | Inr shot_x_positions \<Rightarrow>
                       (case arange 0 panel_height shot_height of
                          Inl e \<Rightarrow> Inl e
                        | Inr shot_y_positions \<Rightarrow>
                            Inr (shot_x_positions, shot_y_positions))))))"

definition compute_geometry ::
  "string \<Rightarrow> params \<Rightarrow> real \<Rightarrow> real \<Rightarrow> real \<Rightarrow> real \<Rightarrow> real \<Rightarrow> real \<Rightarrow> error + die list" where
  "compute_geometry substrate_type substrate_params shot_width shot_height
       die_width die_height scribe_x scribe_y =
     (case shot_positions substrate_type substrate_params shot_width shot_height of
        Inl e \<Rightarrow> Inl e
      | Inr (shot_x_positions, shot_y_positions) \<Rightarrow>
          shot_loop_x shot_x_positions shot_y_positions shot_width shot_height
            die_width die_height scribe_x scribe_y [])"

subsection \<open>Defect injection\<close>

text \<open>
  Python's \<^verbatim>\<open>random\<close> module is a global generator. Its state is threaded through the
  model as a value of type \<open>'g\<close>, and the two library functions the code calls are
  parameters: \<open>seed_fn\<close> is \<^verbatim>\<open>random.seed\<close> (the state a seed sets) and \<open>random_fn\<close> is
  \<^verbatim>\<open>random.random\<close> (a draw and the next state).

  At this level a die list is a list of values, which is what a list of pairwise distinct
  dictionaries is, as \<^verbatim>\<open>run_simulation\<close> builds it from its copies. A list that holds one
  dictionary twice is a list of references: the store model below is the code for every list.
\<close>

fun inject_loop :: "('g \<Rightarrow> real \<times> 'g) \<Rightarrow> die list \<Rightarrow> real \<Rightarrow> 'g \<Rightarrow> die list \<times> 'g" where
  "inject_loop random_fn [] yield_fraction g = ([], g)"
| "inject_loop random_fn (d # ds) yield_fraction g =
     (if status d = ''good_physical'' then
        (case random_fn g of
           (u, g') \<Rightarrow>
             (case inject_loop random_fn ds yield_fraction g' of
                (ds', g'') \<Rightarrow>
                  (d\<lparr>status := (if u < yield_fraction then ''good'' else ''defective'')\<rparr> # ds',
                   g'')))
      else
        (case inject_loop random_fn ds yield_fraction g of
           (ds', g'') \<Rightarrow> (d # ds', g'')))"

definition inject_defects ::
  "(int \<Rightarrow> 'g) \<Rightarrow> ('g \<Rightarrow> real \<times> 'g) \<Rightarrow> die list \<Rightarrow> real \<Rightarrow> int option \<Rightarrow> 'g
     \<Rightarrow> die list \<times> 'g" where
  "inject_defects seed_fn random_fn dice_list yield_fraction seed g =
     inject_loop random_fn dice_list yield_fraction
       (case seed of None \<Rightarrow> g | Some s \<Rightarrow> seed_fn s)"

subsection \<open>Monte Carlo runner\<close>

text \<open>One entry of \<^verbatim>\<open>sim_results\<close>; \<open>'d\<close> is what the \<^verbatim>\<open>"dice"\<close> key holds (the die
  values here, references in the store model).\<close>

record 'd trial_result =
  total_r :: nat
  good_physical :: nat
  good :: nat
  defective :: nat
  partial :: nat
  lost :: nat
  fab_yield :: real
  dice :: 'd

definition count_status :: "string \<Rightarrow> die list \<Rightarrow> nat" where
  "count_status s ds = length (filter (\<lambda>d. status d = s) ds)"

definition tally :: "die list \<Rightarrow> 'd \<Rightarrow> 'd trial_result" where
  "tally dice_with_defects ref =
     (let count_good = count_status ''good'' dice_with_defects;
          count_defective = count_status ''defective'' dice_with_defects;
          count_partial = count_status ''partial'' dice_with_defects;
          count_lost = count_status ''lost'' dice_with_defects;
          fab_yield = (if count_good + count_defective > 0
                       then real count_good / real (count_good + count_defective) else 0)
      in \<lparr>total_r = length dice_with_defects,
          good_physical =
            length (filter (\<lambda>d. status d \<in> set [''good'', ''defective'']) dice_with_defects),
          good = count_good,
          defective = count_defective,
          partial = count_partial,
          lost = count_lost,
          fab_yield = fab_yield,
          dice = ref\<rparr>)"

text \<open>The loop \<^verbatim>\<open>for d in dice_copy: d["status"] = classify_die(d, ...)\<close>.\<close>

fun classify_all :: "die list \<Rightarrow> string \<Rightarrow> params \<Rightarrow> error + die list" where
  "classify_all [] substrate_type substrate_params = Inr []"
| "classify_all (d # ds) substrate_type substrate_params =
     (case classify_die d substrate_type substrate_params of
        Inl e \<Rightarrow> Inl e
      | Inr s \<Rightarrow>
          (case classify_all ds substrate_type substrate_params of
             Inl e \<Rightarrow> Inl e
           | Inr ds' \<Rightarrow> Inr (d\<lparr>status := s\<rparr> # ds')))"

text \<open>One pass of the loop over \<^verbatim>\<open>range(sim_runs)\<close>, for the run index \<open>run\<close>.\<close>

definition run_body ::
  "(int \<Rightarrow> 'g) \<Rightarrow> ('g \<Rightarrow> real \<times> 'g) \<Rightarrow> die list \<Rightarrow> string \<Rightarrow> params \<Rightarrow> real \<Rightarrow> int option
     \<Rightarrow> int \<Rightarrow> 'g \<Rightarrow> error + (die list trial_result \<times> 'g)" where
  "run_body seed_fn random_fn base_dice substrate_type substrate_params yield_fraction
       random_seed run g =
     (case classify_all base_dice substrate_type substrate_params of
        Inl e \<Rightarrow> Inl e
      | Inr dice_copy \<Rightarrow>
          (case inject_defects seed_fn random_fn dice_copy yield_fraction
                  (case random_seed of None \<Rightarrow> None | Some s \<Rightarrow> Some (s + run)) g of
             (dice_with_defects, g') \<Rightarrow>
               Inr (tally dice_with_defects dice_with_defects, g')))"

fun run_loop ::
  "(int \<Rightarrow> 'g) \<Rightarrow> ('g \<Rightarrow> real \<times> 'g) \<Rightarrow> die list \<Rightarrow> string \<Rightarrow> params \<Rightarrow> real \<Rightarrow> int option
     \<Rightarrow> int list \<Rightarrow> die list trial_result list \<Rightarrow> 'g
     \<Rightarrow> error + (die list trial_result list \<times> 'g)" where
  "run_loop seed_fn random_fn base_dice st ps yf random_seed [] sim_results g =
     Inr (sim_results, g)"
| "run_loop seed_fn random_fn base_dice st ps yf random_seed (run # runs) sim_results g =
     (case run_body seed_fn random_fn base_dice st ps yf random_seed run g of
        Inl e \<Rightarrow> Inl e
      | Inr (r, g') \<Rightarrow>
          run_loop seed_fn random_fn base_dice st ps yf random_seed runs (sim_results @ [r]) g')"

text \<open>\<^verbatim>\<open>range(sim_runs)\<close> is \<open>0, ..., sim_runs - 1\<close>, and empty when \<open>sim_runs \<le> 0\<close>.\<close>

definition run_simulation ::
  "(int \<Rightarrow> 'g) \<Rightarrow> ('g \<Rightarrow> real \<times> 'g) \<Rightarrow> int \<Rightarrow> die list \<Rightarrow> string \<Rightarrow> params \<Rightarrow> real
     \<Rightarrow> int option \<Rightarrow> 'g \<Rightarrow> error + (die list trial_result list \<times> 'g)" where
  "run_simulation seed_fn random_fn sim_runs base_dice substrate_type substrate_params
       yield_fraction random_seed g =
     run_loop seed_fn random_fn base_dice substrate_type substrate_params yield_fraction
       random_seed (map int [0..<nat sim_runs]) [] g"

subsection \<open>The same code over a store of dictionaries\<close>

text \<open>
  \<^verbatim>\<open>inject_defects\<close> and \<^verbatim>\<open>run_simulation\<close> assign to \<^verbatim>\<open>d["status"]\<close>, and a Python list
  holds references to its dictionaries. Here the die dictionaries live in a store, a reference
  is an index into it, \<^verbatim>\<open>d.copy()\<close> allocates a new dictionary at the end of the store and
  an assignment to a key updates the store in place. A reference held by a Python program
  always points to an object; here that is \<open>a < length h\<close>. The list of corners is shared by
  a copy and its original, and no code assigns to it, so it stays a value of the dictionary.

  An exception leaves the store as it is at the raise, so the store is returned beside the
  outcome.
\<close>

type_synonym ref = nat
type_synonym store = "die list"

definition dict_copy :: "store \<Rightarrow> ref \<Rightarrow> store \<times> ref" where
  "dict_copy h a = (h @ [h ! a], length h)"

definition set_status :: "store \<Rightarrow> ref \<Rightarrow> string \<Rightarrow> store" where
  "set_status h a s = h[a := (h ! a)\<lparr>status := s\<rparr>]"

text \<open>\<^verbatim>\<open>[d.copy() for d in base_dice]\<close>\<close>

fun copy_all :: "store \<Rightarrow> ref list \<Rightarrow> store \<times> ref list" where
  "copy_all h [] = (h, [])"
| "copy_all h (a # as) =
     (case dict_copy h a of
        (h', a') \<Rightarrow> (case copy_all h' as of (h'', as') \<Rightarrow> (h'', a' # as')))"

fun classify_all_s :: "store \<Rightarrow> ref list \<Rightarrow> string \<Rightarrow> params \<Rightarrow> store \<times> error option" where
  "classify_all_s h [] substrate_type substrate_params = (h, None)"
| "classify_all_s h (a # as) substrate_type substrate_params =
     (case classify_die (h ! a) substrate_type substrate_params of
        Inl e \<Rightarrow> (h, Some e)
      | Inr s \<Rightarrow> classify_all_s (set_status h a s) as substrate_type substrate_params)"

fun inject_loop_s :: "('g \<Rightarrow> real \<times> 'g) \<Rightarrow> store \<Rightarrow> ref list \<Rightarrow> real \<Rightarrow> 'g \<Rightarrow> store \<times> 'g" where
  "inject_loop_s random_fn h [] yield_fraction g = (h, g)"
| "inject_loop_s random_fn h (a # as) yield_fraction g =
     (if status (h ! a) = ''good_physical'' then
        (case random_fn g of
           (u, g') \<Rightarrow>
             inject_loop_s random_fn
               (set_status h a (if u < yield_fraction then ''good'' else ''defective''))
               as yield_fraction g')
      else inject_loop_s random_fn h as yield_fraction g)"

text \<open>The list \<^verbatim>\<open>inject_defects\<close> returns is the list it was given.\<close>

definition inject_defects_s ::
  "(int \<Rightarrow> 'g) \<Rightarrow> ('g \<Rightarrow> real \<times> 'g) \<Rightarrow> store \<Rightarrow> ref list \<Rightarrow> real \<Rightarrow> int option \<Rightarrow> 'g
     \<Rightarrow> store \<times> 'g" where
  "inject_defects_s seed_fn random_fn h dice_list yield_fraction seed g =
     inject_loop_s random_fn h dice_list yield_fraction
       (case seed of None \<Rightarrow> g | Some s \<Rightarrow> seed_fn s)"

definition run_body_s ::
  "(int \<Rightarrow> 'g) \<Rightarrow> ('g \<Rightarrow> real \<times> 'g) \<Rightarrow> store \<Rightarrow> ref list \<Rightarrow> string \<Rightarrow> params \<Rightarrow> real
     \<Rightarrow> int option \<Rightarrow> int \<Rightarrow> 'g \<Rightarrow> store \<times> (error + (ref list trial_result \<times> 'g))" where
  "run_body_s seed_fn random_fn h base_dice substrate_type substrate_params yield_fraction
       random_seed run g =
     (case copy_all h base_dice of
        (h1, dice_copy) \<Rightarrow>
          (case classify_all_s h1 dice_copy substrate_type substrate_params of
             (h2, Some e) \<Rightarrow> (h2, Inl e)
           | (h2, None) \<Rightarrow>
               (case inject_defects_s seed_fn random_fn h2 dice_copy yield_fraction
                       (case random_seed of None \<Rightarrow> None | Some s \<Rightarrow> Some (s + run)) g of
                  (h3, g') \<Rightarrow>
                    (h3, Inr (tally (map (\<lambda>a. h3 ! a) dice_copy) dice_copy, g')))))"

fun run_loop_s ::
  "(int \<Rightarrow> 'g) \<Rightarrow> ('g \<Rightarrow> real \<times> 'g) \<Rightarrow> store \<Rightarrow> ref list \<Rightarrow> string \<Rightarrow> params \<Rightarrow> real
     \<Rightarrow> int option \<Rightarrow> int list \<Rightarrow> ref list trial_result list \<Rightarrow> 'g
     \<Rightarrow> store \<times> (error + (ref list trial_result list \<times> 'g))" where
  "run_loop_s seed_fn random_fn h base_dice st ps yf random_seed [] sim_results g =
     (h, Inr (sim_results, g))"
| "run_loop_s seed_fn random_fn h base_dice st ps yf random_seed (run # runs) sim_results g =
     (case run_body_s seed_fn random_fn h base_dice st ps yf random_seed run g of
        (h', Inl e) \<Rightarrow> (h', Inl e)
      | (h', Inr (r, g')) \<Rightarrow>
          run_loop_s seed_fn random_fn h' base_dice st ps yf random_seed runs
            (sim_results @ [r]) g')"

definition run_simulation_s ::
  "(int \<Rightarrow> 'g) \<Rightarrow> ('g \<Rightarrow> real \<times> 'g) \<Rightarrow> store \<Rightarrow> int \<Rightarrow> ref list \<Rightarrow> string \<Rightarrow> params \<Rightarrow> real
     \<Rightarrow> int option \<Rightarrow> 'g \<Rightarrow> store \<times> (error + (ref list trial_result list \<times> 'g))" where
  "run_simulation_s seed_fn random_fn h sim_runs base_dice substrate_type substrate_params
       yield_fraction random_seed g =
     run_loop_s seed_fn random_fn h base_dice substrate_type substrate_params yield_fraction
       random_seed (map int [0..<nat sim_runs]) [] g"

text \<open>A store result read as a value result: its references replaced by the dictionaries they
  point to in the store \<open>h\<close>.\<close>

definition deref_result :: "store \<Rightarrow> ref list trial_result \<Rightarrow> die list trial_result" where
  "deref_result h r =
     \<lparr>total_r = total_r r, good_physical = good_physical r, good = good r,
      defective = defective r, partial = partial r, lost = lost r, fab_yield = fab_yield r,
      dice = map (\<lambda>a. h ! a) (dice r)\<rparr>"

subsection \<open>A small generator for concrete runs\<close>

text \<open>A linear congruential generator on \<open>{0, ..., 100}\<close>, standing in for the library's
  generator where a theorem is instantiated at concrete inputs.\<close>

definition lcg_seed :: "int \<Rightarrow> nat" where
  "lcg_seed s = nat \<bar>s\<bar> mod 101"

definition lcg_random :: "nat \<Rightarrow> real \<times> nat" where
  "lcg_random g = (real g / 101, (37 * g + 11) mod 101)"

text \<open>A store with one \<^verbatim>\<open>good_physical\<close> and one \<^verbatim>\<open>partial\<close> die.\<close>

definition example_store :: store where
  "example_store = [(make_die 0 0 5 5)\<lparr>status := ''good_physical''\<rparr>,
                    (make_die 148 0 5 5)\<lparr>status := ''partial''\<rparr>]"

text \<open>A store of three \<^verbatim>\<open>good_physical\<close> dice with the same geometry.\<close>

definition triple_store :: store where
  "triple_store = [(make_die 0 0 5 5)\<lparr>status := ''good_physical''\<rparr>,
                   (make_die 0 0 5 5)\<lparr>status := ''good_physical''\<rparr>,
                   (make_die 0 0 5 5)\<lparr>status := ''good_physical''\<rparr>]"

section \<open>Properties\<close>

subsection \<open>Double arithmetic\<close>

lemma powi_double: "(2 :: real) powi (e + 1) = 2 * 2 powi e"
  by (simp add: power_int_add)

lemma powi_half: "(2 :: real) powi (e - 1) = 2 powi e / 2"
  by (simp add: power_int_diff)

text \<open>The exponent search finds the binade of its argument, and \<open>fl\<close> rounds the significand
  in that binade.\<close>

lemma binade_bounds:
  "2 powi (- int n) \<le> x \<Longrightarrow> x < 2 powi (int n + 1) \<Longrightarrow>
   2 powi (binade n x) \<le> x \<and> x < 2 powi (binade n x + 1)"
proof (induction n arbitrary: x)
  case 0
  then show ?case by simp
next
  case (Suc n)
  have "- int (Suc n) = - int n - 1" by simp
  then have lo: "2 powi (- int (Suc n)) = (2 :: real) powi (- int n) / 2"
    by (simp only: powi_half)
  have "int (Suc n) + 1 = (int n + 1) + 1" by simp
  then have hi: "2 powi (int (Suc n) + 1) = 2 * (2 :: real) powi (int n + 1)"
    by (simp only: powi_double)
  have one_hi: "(1 :: real) \<le> 2 powi (int n + 1)"
    by (rule one_le_power_int) simp_all
  have lo_one: "(2 :: real) powi (- int n) \<le> 1"
    by (simp add: power_int_minus field_simps)
  show ?case
  proof (cases "2 \<le> x")
    case True
    have a: "2 powi (- int n) \<le> x / 2" using True lo_one by simp
    have b: "x / 2 < 2 powi (int n + 1)" using Suc.prems(2) hi by simp
    define c where "c = binade n (x / 2)"
    from Suc.IH [OF a b] have ih: "2 powi c \<le> x / 2" "x / 2 < 2 powi (c + 1)"
      by (simp_all add: c_def)
    have bn: "binade (Suc n) x = c + 1" using True by (simp add: c_def)
    have "2 powi (c + 1) \<le> x"
      unfolding powi_double using ih(1) by simp
    moreover have "x < 2 powi (c + 1 + 1)"
      unfolding powi_double [of "c + 1"] using ih(2) by simp
    ultimately show ?thesis unfolding bn by simp
  next
    case False
    show ?thesis
    proof (cases "x < 1")
      case True
      have a: "2 powi (- int n) \<le> 2 * x" using Suc.prems(1) lo by simp
      have "(1 :: real) \<le> 2 powi (int n)"
        by (rule one_le_power_int) simp_all
      then have "(2 :: real) \<le> 2 powi (int n + 1)"
        unfolding powi_double by simp
      then have b: "2 * x < 2 powi (int n + 1)" using True by linarith
      define c where "c = binade n (2 * x)"
      from Suc.IH [OF a b] have ih: "2 powi c \<le> 2 * x" "2 * x < 2 powi (c + 1)"
        by (simp_all add: c_def)
      have bn: "binade (Suc n) x = c - 1" using True \<open>\<not> 2 \<le> x\<close> by (simp add: c_def)
      have "2 powi (c - 1) \<le> x"
        unfolding powi_half using ih(1) by simp
      moreover have "x < 2 powi (c - 1 + 1)"
        unfolding powi_double [of "c - 1"] powi_half using ih(2) unfolding powi_double by simp
      ultimately show ?thesis unfolding bn by simp
    next
      case False
      with \<open>\<not> 2 \<le> x\<close> show ?thesis by simp
    qed
  qed
qed

lemma binade_unique:
  assumes "2 powi e \<le> x" and "x < 2 powi (e + 1)" and "- int n \<le> e" and "e \<le> int n"
  shows "binade n x = e"
proof -
  have lo: "2 powi (- int n) \<le> x"
    using assms(1,3) power_int_increasing [of "- int n" e "2 :: real"] by simp
  have hi: "x < 2 powi (int n + 1)"
    using assms(2,4) power_int_increasing [of "e + 1" "int n + 1" "2 :: real"] by simp
  from binade_bounds [OF lo hi]
  have b1: "2 powi (binade n x) \<le> x" and b2: "x < 2 powi (binade n x + 1)" by simp_all
  have p1: "(2 :: real) powi e < 2 powi (binade n x + 1)" using assms(1) b2 by simp
  have "e < binade n x + 1"
  proof (rule ccontr)
    assume "\<not> e < binade n x + 1"
    then have "binade n x + 1 \<le> e" by simp
    then have "(2 :: real) powi (binade n x + 1) \<le> 2 powi e"
      by (rule power_int_increasing) simp
    with p1 show False by simp
  qed
  moreover have p2: "(2 :: real) powi (binade n x) < 2 powi (e + 1)" using assms(2) b1 by simp
  have "binade n x < e + 1"
  proof (rule ccontr)
    assume "\<not> binade n x < e + 1"
    then have "e + 1 \<le> binade n x" by simp
    then have "(2 :: real) powi (e + 1) \<le> 2 powi (binade n x)"
      by (rule power_int_increasing) simp
    with p2 show False by simp
  qed
  ultimately show ?thesis by simp
qed

lemma fl_eq:
  assumes "2 powi e \<le> \<bar>x\<bar>" and "\<bar>x\<bar> < 2 powi (e + 1)" and "- 1022 \<le> e" and "e \<le> 1023"
  shows "fl x = sgn x * of_int (round_half_even (\<bar>x\<bar> / 2 powi (e - 52))) * 2 powi (e - 52)"
proof -
  have pos: "0 < \<bar>x\<bar>"
    using assms(1) by (smt (verit) zero_less_power_int)
  have "(2 :: real) powi (- 1022) \<le> 2 powi e"
    by (rule power_int_increasing [OF assms(3)]) simp
  then have nl: "\<not> \<bar>x\<bar> < 2 powi (- 1022)" using assms(1) by linarith
  have b: "binade 1100 \<bar>x\<bar> = e"
    using assms by (intro binade_unique) simp_all
  have x0: "x \<noteq> 0" using pos by simp
  show ?thesis
    unfolding fl_def Let_def if_not_P [OF x0] if_not_P [OF nl] b ..
qed

lemma fl_subnormal:
  assumes "\<bar>x\<bar> < 2 powi (- 1022)"
  shows "fl x = sgn x * of_int (round_half_even (\<bar>x\<bar> / 2 powi (- 1074))) * 2 powi (- 1074)"
proof (cases "x = 0")
  case True
  then show ?thesis by (simp add: fl_def)
next
  case False
  show ?thesis
    unfolding fl_def Let_def if_not_P [OF False] if_P [OF assms] by simp
qed

lemma fl_zero: "fl 0 = 0"
  by (simp add: fl_def)

lemma fl_minus: "fl (- x) = - fl x"
  by (simp add: fl_def Let_def)

lemma round_half_even_of_int: "round_half_even (of_int k) = k"
  by (simp add: round_half_even_def)

lemma powi_neg_nat: "(2 :: real) powi (- int n) = 1 / 2 ^ n"
  by (simp add: power_int_minus field_simps)

text \<open>An integer below \<open>2\<^sup>5\<^sup>3\<close> is a double.\<close>

lemma fl_int:
  assumes "x \<in> \<int>" and "\<bar>x\<bar> < 2 ^ 53"
  shows "fl x = x"
proof (cases "x = 0")
  case True
  then show ?thesis by (simp add: fl_zero)
next
  case False
  from assms(1) obtain k where k: "x = of_int k" by (auto elim: Ints_cases)
  define a where "a = \<bar>x\<bar>"
  have ak: "a = of_int \<bar>k\<bar>" by (simp add: a_def k)
  from False have "k \<noteq> 0" by (simp add: k)
  then have "1 \<le> \<bar>k\<bar>" by simp
  then have a1: "1 \<le> a" unfolding ak by (metis of_int_1_le_iff)
  define e where "e = binade 1100 a"
  have "(2 :: real) powi (- int 1100) \<le> 1"
    unfolding powi_neg_nat by simp
  with a1 have lo: "2 powi (- int 1100) \<le> a" by linarith
  have "(2 :: real) powi 53 \<le> 2 powi (int 1100 + 1)"
    by (rule power_int_increasing) simp_all
  moreover have "a < 2 powi 53" using assms(2) by (simp add: a_def)
  ultimately have hi: "a < 2 powi (int 1100 + 1)" by linarith
  from binade_bounds [OF lo hi] have b1: "2 powi e \<le> a" and b2: "a < 2 powi (e + 1)"
    by (simp_all add: e_def)
  have e0: "0 \<le> e"
  proof (rule ccontr)
    assume "\<not> 0 \<le> e"
    then have "e + 1 \<le> 0" by simp
    then have "(2 :: real) powi (e + 1) \<le> 2 powi 0"
      by (rule power_int_increasing) simp
    with b2 a1 show False by simp
  qed
  have e52: "e \<le> 52"
  proof (rule ccontr)
    assume "\<not> e \<le> 52"
    then have "53 \<le> e" by simp
    then have "(2 :: real) powi 53 \<le> 2 powi e"
      by (rule power_int_increasing) simp
    with b1 \<open>a < 2 powi 53\<close> show False by simp
  qed
  define n where "n = nat (52 - e)"
  have en: "e - 52 = - int n" using e52 by (simp add: n_def)
  have q: "a / 2 powi (e - 52) = of_int (\<bar>k\<bar> * 2 ^ n)"
    unfolding en powi_neg_nat ak by simp
  have "fl x = sgn x * of_int (round_half_even (\<bar>x\<bar> / 2 powi (e - 52))) * 2 powi (e - 52)"
    using b1 b2 e0 e52 by (intro fl_eq) (simp_all add: a_def)
  also have "\<dots> = sgn x * of_int (\<bar>k\<bar> * 2 ^ n) * 2 powi (e - 52)"
    using q unfolding a_def by (simp only: round_half_even_of_int)
  also have "\<dots> = sgn x * a"
    unfolding en powi_neg_nat ak by simp
  also have "\<dots> = x" by (simp add: a_def sgn_mult_abs)
  finally show ?thesis .
qed

lemma fl_numeral: "numeral k < (2 :: real) ^ 53 \<Longrightarrow> fl (numeral k) = numeral k"
  by (rule fl_int) simp_all

lemma fl_one: "fl 1 = 1"
  by (rule fl_int) simp_all

lemma not_overflows: "\<bar>x\<bar> < 2 ^ 1023 \<Longrightarrow> \<not> overflows x"
  by (simp add: overflows_def)

lemma not_overflows_square: "\<bar>x\<bar> < 2 ^ 511 \<Longrightarrow> \<not> overflows (x\<^sup>2)"
proof -
  assume a: "\<bar>x\<bar> < 2 ^ 511"
  have "\<bar>x\<bar> * \<bar>x\<bar> \<le> 2 ^ 511 * 2 ^ 511"
    using a by (intro mult_mono) simp_all
  then have "\<bar>x\<^sup>2\<bar> \<le> 2 ^ 1022"
    by (simp add: power2_eq_square abs_mult)
  then have "\<bar>x\<^sup>2\<bar> < 2 ^ 1023" by simp
  then show ?thesis by (rule not_overflows)
qed

lemma fpow2_minus: "fpow2 (Fin (- a)) = fpow2 (Fin a)"
  by simp

lemma fpow2_abs: "fpow2 (Fin \<bar>a\<bar>) = fpow2 (Fin a)"
  by simp

subsection \<open>Classifier\<close>

lemma getitem_Some: "m k = Some v \<Longrightarrow> getitem m k = Inr v"
  by (simp add: getitem_def)

lemma is_inside_wafer_neg: "is_inside_wafer x y (- r) = is_inside_wafer x y r"
  by (simp add: is_inside_wafer_def)

lemma is_inside_wafer_abs: "is_inside_wafer x y \<bar>r\<bar> = is_inside_wafer x y r"
  by (simp add: is_inside_wafer_def)

text \<open>The wafer test returns when no square overflows, and raises otherwise.\<close>

lemma is_inside_wafer_finite:
  "\<not> overflows (x\<^sup>2) \<Longrightarrow> \<not> overflows (y\<^sup>2) \<Longrightarrow> \<not> overflows (r\<^sup>2) \<Longrightarrow>
   is_inside_wafer x y r = Inr (fle (rnd (fl (x\<^sup>2) + fl (y\<^sup>2))) (Fin (fl (r\<^sup>2))))"
  by (simp add: is_inside_wafer_def)



lemma count_inside_wafer:
  "substrate_params ''effective_radius'' = Some r \<Longrightarrow> \<not> overflows (r\<^sup>2) \<Longrightarrow>
   \<forall>c \<in> set cs. \<not> overflows ((fst c)\<^sup>2) \<and> \<not> overflows ((snd c)\<^sup>2) \<Longrightarrow>
   count_inside ''Wafer'' substrate_params cs n =
     Inr (n + length (filter
       (\<lambda>c. fle (rnd (fl ((fst c)\<^sup>2) + fl ((snd c)\<^sup>2))) (Fin (fl (r\<^sup>2)))) cs))"
proof (induction cs arbitrary: n)
  case Nil
  show ?case by simp
next
  case (Cons c cs)
  obtain cx cy where c: "c = (cx, cy)" by (cases c)
  from Cons.prems(3) have "\<not> overflows (cx\<^sup>2)" and "\<not> overflows (cy\<^sup>2)"
    by (simp_all add: c)
  then have w: "is_inside_wafer cx cy r =
      Inr (fle (rnd (fl (cx\<^sup>2) + fl (cy\<^sup>2))) (Fin (fl (r\<^sup>2))))"
    using Cons.prems(2) by (simp add: is_inside_wafer_finite)
  have ci: "corner_inside ''Wafer'' substrate_params (cx, cy) =
      Inr (fle (rnd (fl (cx\<^sup>2) + fl (cy\<^sup>2))) (Fin (fl (r\<^sup>2))))"
    using Cons.prems(1) by (simp add: corner_inside_def getitem_def w)
  from Cons.prems(3) have rest: "\<forall>c \<in> set cs. \<not> overflows ((fst c)\<^sup>2) \<and> \<not> overflows ((snd c)\<^sup>2)"
    by simp
  show ?case
    by (simp add: ci Cons.IH [OF Cons.prems(1,2) rest] c)
qed


lemma count_inside_panel:
  "substrate_type \<noteq> ''Wafer'' \<Longrightarrow> substrate_params ''panel_width'' = Some pw \<Longrightarrow>
   substrate_params ''panel_height'' = Some ph \<Longrightarrow> substrate_params ''edge_loss'' = Some m \<Longrightarrow>
   count_inside substrate_type substrate_params cs n =
     Inr (n + length (filter (\<lambda>c. is_inside_panel (fst c) (snd c) pw ph m) cs))"
  by (induction cs arbitrary: n) (simp_all add: corner_inside_def getitem_Some split: prod.splits)

lemma classify_die_wafer:
  "substrate_params ''effective_radius'' = Some r \<Longrightarrow> \<not> overflows (r\<^sup>2) \<Longrightarrow>
   \<forall>c \<in> set (corners d). \<not> overflows ((fst c)\<^sup>2) \<and> \<not> overflows ((snd c)\<^sup>2) \<Longrightarrow>
   classify_die d ''Wafer'' substrate_params =
     Inr (let n = length (filter
                (\<lambda>c. fle (rnd (fl ((fst c)\<^sup>2) + fl ((snd c)\<^sup>2))) (Fin (fl (r\<^sup>2)))) (corners d))
          in if n = 4 then ''good_physical'' else if n > 0 then ''partial'' else ''lost'')"
  by (simp add: classify_die_def count_inside_wafer Let_def)


lemma classify_die_panel:
  "substrate_type \<noteq> ''Wafer'' \<Longrightarrow> substrate_params ''panel_width'' = Some pw \<Longrightarrow>
   substrate_params ''panel_height'' = Some ph \<Longrightarrow> substrate_params ''edge_loss'' = Some m \<Longrightarrow>
   classify_die d substrate_type substrate_params =
     Inr (let n = length (filter (\<lambda>c. is_inside_panel (fst c) (snd c) pw ph m) (corners d))
          in if n = 4 then ''good_physical'' else if n > 0 then ''partial'' else ''lost'')"
  by (simp add: classify_die_def count_inside_panel Let_def)

lemma classify_die_wafer_abs:
  "classify_die d ''Wafer'' (p(''effective_radius'' \<mapsto> \<bar>r\<bar>)) =
   classify_die d ''Wafer'' (p(''effective_radius'' \<mapsto> r))"
proof -
  have "count_inside ''Wafer'' (p(''effective_radius'' \<mapsto> \<bar>r\<bar>)) cs n =
        count_inside ''Wafer'' (p(''effective_radius'' \<mapsto> r)) cs n" for cs n
    by (induction cs arbitrary: n)
      (simp_all add: corner_inside_def getitem_def is_inside_wafer_abs
        split: prod.splits sum.splits)
  then show ?thesis by (simp add: classify_die_def)
qed

text \<open>The wafer test at concrete numbers, step by step: the three squares, their doubles, and
  the double of the sum.\<close>

lemma is_inside_wafer_eval:
  assumes "x\<^sup>2 = xx" and "y\<^sup>2 = yy" and "r\<^sup>2 = rr"
    and "\<bar>xx\<bar> < 2 ^ 1023" and "\<bar>yy\<bar> < 2 ^ 1023" and "\<bar>rr\<bar> < 2 ^ 1023"
    and "fl xx = a" and "fl yy = b" and "\<bar>a + b\<bar> < 2 ^ 1023" and "fl (a + b) = s"
    and "fl rr = t"
  shows "is_inside_wafer x y r = Inr (s \<le> t)"
  using assms by (simp add: is_inside_wafer_finite rnd_def not_overflows)





text \<open>The rules that evaluate the classifier on dice with integer coordinates.\<close>

lemmas classify_eval =
  classify_die_def corner_inside_def getitem_def make_die_def is_inside_wafer_def
  is_inside_panel_def fsub_def rnd_def overflows_def fl_numeral fl_zero fl_one






text \<open>
  Claim C10. The wafer test compares \<open>x\<^sup>2 + y\<^sup>2\<close> with the square of the radius, so it does not
  see the sign of the radius: a wafer with a negative effective radius classifies every die as
  the wafer with the absolute value does, and a wafer of diameter 300 with edge loss 160
  (effective radius \<open>-10\<close>) has a die that is \<^verbatim>\<open>good_physical\<close>.
\<close>

theorem wafer_test_sign_symmetric:
  "is_inside_wafer x y r = is_inside_wafer x y (- r)
   \<and> classify_die d ''Wafer'' (p(''effective_radius'' \<mapsto> r)) =
     classify_die d ''Wafer'' (p(''effective_radius'' \<mapsto> \<bar>r\<bar>))
   \<and> classify_die (make_die 0 0 5 5) ''Wafer'' (wafer_params 300 160) = Inr ''good_physical''
   \<and> wafer_params 300 160 ''effective_radius'' = Some (- 10)"
proof -
  have a: "is_inside_wafer x y r = is_inside_wafer x y (- r)"
    by (simp add: is_inside_wafer_neg)
  have b: "classify_die d ''Wafer'' (p(''effective_radius'' \<mapsto> r)) =
     classify_die d ''Wafer'' (p(''effective_radius'' \<mapsto> \<bar>r\<bar>))"
    by (simp add: classify_die_wafer_abs)
  have c: "wafer_params 300 160 ''effective_radius'' = Some (- 10)"
    by (simp add: wafer_params_def Let_def)
  have d: "classify_die (make_die 0 0 5 5) ''Wafer'' (wafer_params 300 160) = Inr ''good_physical''"
    by (simp add: classify_eval wafer_params_def)
  from a b c d show ?thesis by blast
qed

subsection \<open>Dice count of a shot\<close>

text \<open>The steps of the floor division for a positive divisor, a dividend that is not negative
  and a remainder that is not zero.\<close>

lemma float_floordiv_eval:
  assumes "0 < wx" and "0 \<le> vx"
    and "\<lfloor>vx / wx\<rfloor> = k" and "vx - wx * of_int k = vmod" and "0 < vmod"
    and "\<bar>vx - vmod\<bar> < 2 ^ 1023" and "fl (vx - vmod) = a"
    and "\<bar>a / wx\<bar> < 2 ^ 1023" and "fl (a / wx) = dv" and "dv \<noteq> 0"
    and "\<lfloor>dv\<rfloor> = f" and "\<bar>dv - of_int f\<bar> < 2 ^ 1023" and "fl (dv - of_int f) = d"
    and "d \<le> 1 / 2"
  shows "float_floordiv (Fin vx) (Fin wx) = Inr (Fin (of_int f))"
proof -
  have q: "0 \<le> vx / wx" using assms(1,2) by simp
  have m: "ffmod (Fin vx) (Fin wx) = Fin vmod"
    using assms(1,3,4) q by simp
  have s: "fsub (Fin vx) (Fin vmod) = Fin a"
    using assms(6,7) by (simp add: fsub_def rnd_def not_overflows)
  have dq: "fquot (Fin a) (Fin wx) = Fin dv"
    using assms(1,8,9) by (simp add: rnd_def not_overflows)
  have df: "fsub (Fin dv) (Fin (of_int f)) = Fin d"
    using assms(12,13) by (simp add: fsub_def rnd_def not_overflows)
  show ?thesis
    unfolding float_floordiv_def Let_def m s dq
    using assms(1,5,10,11,14) by (simp add: df)
qed

lemma num_dice_eval:
  assumes "\<bar>shot_dim + scribe\<bar> < 2 ^ 1023" and "fl (shot_dim + scribe) = vx"
    and "\<bar>die_dim + scribe\<bar> < 2 ^ 1023" and "fl (die_dim + scribe) = wx"
    and "float_floordiv (Fin vx) (Fin wx) = Inr (Fin (of_int f))" and "0 \<le> f"
  shows "num_dice shot_dim die_dim scribe = Inr f"
  using assms by (simp add: num_dice_def rnd_def not_overflows)

text \<open>The sums and the counts for a shot of 26 by 33, a die of 5 by 5 and scribe gaps of
  0.2.\<close>

lemma fl_26_2: "fl (26 + 0.2) = 7374644389819187 / 2 ^ 48"
  using fl_eq [of 4 "26 + 0.2"] by (simp add: round_half_even_def Let_def)

lemma fl_33_2: "fl (33 + 0.2) = 2336242306698445 / 2 ^ 46"
  using fl_eq [of 5 "33 + 0.2"] by (simp add: round_half_even_def Let_def)

lemma fl_5_2: "fl (5 + 0.2) = 5854679515581645 / 2 ^ 50"
  using fl_eq [of 2 "5 + 0.2"] by (simp add: round_half_even_def Let_def)

lemma floordiv_26_2:
  "float_floordiv (Fin (7374644389819187 / 2 ^ 48)) (Fin (5854679515581645 / 2 ^ 50)) =
     Inr (Fin (of_int 5))"
proof (rule float_floordiv_eval [where k = 5 and vmod = "225179981368523 / 2 ^ 50"
      and a = 26 and dv = 5 and d = 0])
  show "fl (7374644389819187 / 2 ^ 48 - 225179981368523 / 2 ^ 50) = 26"
    using fl_eq [of 4 "7374644389819187 / 2 ^ 48 - 225179981368523 / 2 ^ 50"]
    by (simp add: round_half_even_def Let_def)
  show "fl (26 / (5854679515581645 / 2 ^ 50)) = 5"
    using fl_eq [of 2 "26 / (5854679515581645 / 2 ^ 50)"]
    by (simp add: round_half_even_def Let_def)
  show "fl (5 - real_of_int 5) = 0" by (simp add: fl_zero)
  show "\<lfloor>7374644389819187 / 2 ^ 48 / (5854679515581645 / 2 ^ 50)\<rfloor> = (5 :: int)"
    by (simp add: floor_eq_iff)
qed simp_all

lemma floordiv_33_2:
  "float_floordiv (Fin (2336242306698445 / 2 ^ 46)) (Fin (5854679515581645 / 2 ^ 50)) =
     Inr (Fin (of_int 6))"
proof (rule float_floordiv_eval [where k = 6 and vmod = "1125899906842625 / 2 ^ 49"
      and a = "2195504818343117 / 2 ^ 46" and dv = 6 and d = 0])
  show "fl (2336242306698445 / 2 ^ 46 - 1125899906842625 / 2 ^ 49) = 2195504818343117 / 2 ^ 46"
    using fl_eq [of 4 "2336242306698445 / 2 ^ 46 - 1125899906842625 / 2 ^ 49"]
    by (simp add: round_half_even_def Let_def)
  show "fl (2195504818343117 / 2 ^ 46 / (5854679515581645 / 2 ^ 50)) = 6"
    using fl_eq [of 2 "2195504818343117 / 2 ^ 46 / (5854679515581645 / 2 ^ 50)"]
    by (simp add: round_half_even_def Let_def)
  show "fl (6 - real_of_int 6) = 0" by (simp add: fl_zero)
  show "\<lfloor>2336242306698445 / 2 ^ 46 / (5854679515581645 / 2 ^ 50)\<rfloor> = (6 :: int)"
    by (simp add: floor_eq_iff)
qed simp_all

lemma num_dice_26: "num_dice 26 5 0.2 = Inr 5"
  using num_dice_eval [OF _ fl_26_2 _ fl_5_2, of 5] floordiv_26_2 by simp

lemma num_dice_33: "num_dice 33 5 0.2 = Inr 6"
  using num_dice_eval [OF _ fl_33_2 _ fl_5_2, of 6] floordiv_33_2 by simp

text \<open>The doubles of the literals \<^verbatim>\<open>3.4\<close> and \<^verbatim>\<open>0.3\<close>, and the two sums of the count.\<close>

lemma fl_3_4: "fl 3.4 = 7656119366529843 / 2 ^ 51"
  using fl_eq [of 1 "3.4"] by (simp add: round_half_even_def Let_def)

lemma fl_0_3: "fl 0.3 = 5404319552844595 / 2 ^ 54"
  using fl_eq [of "- 2" "0.3"] by (simp add: round_half_even_def Let_def)

lemma fl_33_3: "fl (33 + fl 0.3) = 2343279181116211 / 2 ^ 46"
  unfolding fl_0_3 using fl_eq [of 5 "33 + 5404319552844595 / 2 ^ 54"]
  by (simp add: round_half_even_def Let_def)

lemma fl_3_7: "fl (fl 3.4 + fl 0.3) = 8331659310635417 / 2 ^ 51"
  unfolding fl_3_4 fl_0_3
  using fl_eq [of 1 "7656119366529843 / 2 ^ 51 + 5404319552844595 / 2 ^ 54"]
  by (simp add: round_half_even_def Let_def)

lemma floordiv_33_3:
  "float_floordiv (Fin (2343279181116211 / 2 ^ 46)) (Fin (8331659310635417 / 2 ^ 51)) =
     Inr (Fin (of_int 8))"
proof (rule float_floordiv_eval [where k = 8 and vmod = "1041457413829427 / 2 ^ 48"
      and a = "8331659310635417 / 2 ^ 48" and dv = 8 and d = 0])
  show "fl (2343279181116211 / 2 ^ 46 - 1041457413829427 / 2 ^ 48) = 8331659310635417 / 2 ^ 48"
    using fl_eq [of 4 "2343279181116211 / 2 ^ 46 - 1041457413829427 / 2 ^ 48"]
    by (simp add: round_half_even_def Let_def)
  show "fl (8331659310635417 / 2 ^ 48 / (8331659310635417 / 2 ^ 51)) = 8"
    by (simp add: fl_numeral)
  show "fl (8 - real_of_int 8) = 0" by (simp add: fl_zero)
  show "\<lfloor>2343279181116211 / 2 ^ 46 / (8331659310635417 / 2 ^ 51)\<rfloor> = (8 :: int)"
    by (simp add: floor_eq_iff)
qed simp_all

text \<open>
  Claim C5. For a shot of height 33, a die of height 3.4 and a scribe gap of 0.3 the builder
  places 8 dice along the axis: the two sums round to the doubles next to 33.3 and 3.7, whose
  quotient is below 9. The floor of the quotient is 9, for the three doubles the builder is
  given as for the decimal numbers they stand for. At the dimensions of the claim the counts
  are 5 and 6.
\<close>

theorem num_dice_rounds_below:
  "num_dice 33 (fl 3.4) (fl 0.3) = Inr 8
   \<and> \<lfloor>(33 + fl 0.3) / (fl 3.4 + fl 0.3)\<rfloor> = 9
   \<and> \<lfloor>(33 + 0.3) / (3.4 + 0.3 :: real)\<rfloor> = 9
   \<and> num_dice 26 5 0.2 = Inr 5 \<and> num_dice 33 5 0.2 = Inr 6"
proof -
  have o1: "\<bar>33 + fl 0.3\<bar> < 2 ^ 1023"
    unfolding fl_0_3 by simp
  have o2: "\<bar>fl 3.4 + fl 0.3\<bar> < 2 ^ 1023"
    unfolding fl_3_4 fl_0_3 by simp
  have a: "num_dice 33 (fl 3.4) (fl 0.3) = Inr 8"
    by (rule num_dice_eval [OF o1 fl_33_3 o2 fl_3_7 floordiv_33_3]) simp
  have b: "\<lfloor>(33 + fl 0.3) / (fl 3.4 + fl 0.3)\<rfloor> = 9"
    unfolding fl_3_4 fl_0_3 by (simp add: floor_eq_iff)
  have c: "\<lfloor>(33 + 0.3) / (3.4 + 0.3 :: real)\<rfloor> = 9"
    by (simp add: floor_eq_iff)
  from a b c num_dice_26 num_dice_33 show ?thesis by (intro conjI)
qed

subsection \<open>Geometry builder\<close>

lemma shot_loop_y_ok:
  "num_dice sw dw sx = Inr nx \<Longrightarrow> num_dice sh dh sy = Inr ny \<Longrightarrow>
   shot_loop_y shot_x ys sw sh dw dh sx sy acc =
     Inr (acc @ concat (map (\<lambda>shot_y. shot_dice shot_x shot_y nx ny dw dh sx sy) ys))"
  by (induction ys arbitrary: acc) (simp_all add: shot_body_def)

lemma shot_loop_x_ok:
  "num_dice sw dw sx = Inr nx \<Longrightarrow> num_dice sh dh sy = Inr ny \<Longrightarrow>
   shot_loop_x xs ys sw sh dw dh sx sy acc =
     Inr (acc @ concat (map (\<lambda>shot_x.
            concat (map (\<lambda>shot_y. shot_dice shot_x shot_y nx ny dw dh sx sy) ys)) xs))"
  by (induction xs arbitrary: acc) (simp_all add: shot_loop_y_ok)

lemma set_shot_dice:
  "set (shot_dice shot_x shot_y nx ny dw dh sx sy) =
     (\<lambda>(i, j). make_die (shot_x + real i * (dw + sx)) (shot_y + real j * (dh + sy)) dw dh)
       ` ({0..<nat nx} \<times> {0..<nat ny})"
  unfolding shot_dice_def by (auto simp: image_iff)

subsection \<open>Degenerate substrates\<close>

lemma in_strided:
  "k < n \<Longrightarrow> x = start + real k * step \<Longrightarrow> x \<in> set (map (\<lambda>k. start + real k * step) [0..<n])"
  by auto

lemma shot_x_in_wafer_range: "(- 20 :: real) \<in> set (map (\<lambda>k. - 150 + real k * 26) [0..<12])"
  by (rule in_strided [where k = 5]) simp_all

lemma shot_y_in_wafer_range: "(- 18 :: real) \<in> set (map (\<lambda>k. - 150 + real k * 33) [0..<10])"
  by (rule in_strided [where k = 4]) simp_all

lemma die_in_shot: "make_die (- 4.4) (- 2.4) 5 5 \<in> set (shot_dice (- 20) (- 18) 5 6 5 5 0.2 0.2)"
  unfolding set_shot_dice
  by (rule image_eqI [where x = "(3, 3)"]) simp_all

lemma in_concat_map: "x \<in> set xs \<Longrightarrow> d \<in> set (f x) \<Longrightarrow> d \<in> set (concat (map f xs))"
  by auto

lemma arange_wafer_x: "arange (- 150) 150 26 = Inr (map (\<lambda>k. - 150 + real k * 26) [0..<12])"
proof -
  have "\<lceil>(150 - (- 150)) / (26 :: real)\<rceil> = 12" by (simp add: ceiling_eq_iff)
  then show ?thesis by (simp add: arange_def)
qed

lemma arange_wafer_y: "arange (- 150) 150 33 = Inr (map (\<lambda>k. - 150 + real k * 33) [0..<10])"
proof -
  have "\<lceil>(150 - (- 150)) / (33 :: real)\<rceil> = 10" by (simp add: ceiling_eq_iff)
  then show ?thesis by (simp add: arange_def)
qed

text \<open>A panel of width 100 and height 50 with edge loss 60 has no usable area, and every die
  is \<^verbatim>\<open>lost\<close>.\<close>

lemma classify_die_panel_negative_extent:
  "classify_die d ''Panel'' (panel_params 100 50 60) = Inr ''lost''"
proof -
  have "\<not> is_inside_panel x y 100 50 60" for x y
    by (simp add: is_inside_panel_def fsub_def rnd_def overflows_def fl_numeral)
  then show ?thesis
    by (simp add: classify_die_panel [where pw = 100 and ph = 50 and m = 60] panel_params_def)
qed

text \<open>The four corners of the die at \<open>(-4.4, -2.4)\<close> against the effective radius \<open>-50\<close>.\<close>

lemma degenerate_corner_1: "is_inside_wafer (- (22 / 5)) (- (12 / 5)) (- 50) = Inr True"
proof -
  have x: "((- (22 / 5)) :: real)\<^sup>2 = 484 / 25"
    by (simp add: power2_eq_square)
  have y: "((- (12 / 5)) :: real)\<^sup>2 = 144 / 25"
    by (simp add: power2_eq_square)
  have r: "((- 50) :: real)\<^sup>2 = 2500"
    by (simp add: power2_eq_square)
  have a: "fl (484 / 25) = 1362338887279575 / 2 ^ 46"
    using fl_eq [of 4 "484 / 25"]
    by (simp add: round_half_even_def Let_def)
  have b: "fl (144 / 25) = 3242591731706757 / 2 ^ 49"
    using fl_eq [of 2 "144 / 25"]
    by (simp add: round_half_even_def Let_def)
  have s: "fl (1362338887279575 / 2 ^ 46 + 3242591731706757 / 2 ^ 49) = 3535325707485839 / 2 ^ 47"
    using fl_eq [of 4 "1362338887279575 / 2 ^ 46 + 3242591731706757 / 2 ^ 49"]
    by (simp add: round_half_even_def Let_def)
  have t: "fl (2500) = 2500"
    by (rule fl_int) simp_all
  have "is_inside_wafer (- (22 / 5)) (- (12 / 5)) (- 50) = Inr ((3535325707485839 / 2 ^ 47 :: real) \<le> 2500)"
    by (rule is_inside_wafer_eval [OF x y r _ _ _ a b _ s t]) simp_all
  then show ?thesis by simp
qed

lemma degenerate_corner_2: "is_inside_wafer (3 / 5) (- (12 / 5)) (- 50) = Inr True"
proof -
  have x: "((3 / 5) :: real)\<^sup>2 = 9 / 25"
    by (simp add: power2_eq_square)
  have y: "((- (12 / 5)) :: real)\<^sup>2 = 144 / 25"
    by (simp add: power2_eq_square)
  have r: "((- 50) :: real)\<^sup>2 = 2500"
    by (simp add: power2_eq_square)
  have a: "fl (9 / 25) = 3242591731706757 / 2 ^ 53"
    using fl_eq [of "- 2" "9 / 25"]
    by (simp add: round_half_even_def Let_def)
  have b: "fl (144 / 25) = 3242591731706757 / 2 ^ 49"
    using fl_eq [of 2 "144 / 25"]
    by (simp add: round_half_even_def Let_def)
  have s: "fl (3242591731706757 / 2 ^ 53 + 3242591731706757 / 2 ^ 49) = 6890507429876859 / 2 ^ 50"
    using fl_eq [of 2 "3242591731706757 / 2 ^ 53 + 3242591731706757 / 2 ^ 49"]
    by (simp add: round_half_even_def Let_def)
  have t: "fl (2500) = 2500"
    by (rule fl_int) simp_all
  have "is_inside_wafer (3 / 5) (- (12 / 5)) (- 50) = Inr ((6890507429876859 / 2 ^ 50 :: real) \<le> 2500)"
    by (rule is_inside_wafer_eval [OF x y r _ _ _ a b _ s t]) simp_all
  then show ?thesis by simp
qed

lemma degenerate_corner_3: "is_inside_wafer (- (22 / 5)) (13 / 5) (- 50) = Inr True"
proof -
  have x: "((- (22 / 5)) :: real)\<^sup>2 = 484 / 25"
    by (simp add: power2_eq_square)
  have y: "((13 / 5) :: real)\<^sup>2 = 169 / 25"
    by (simp add: power2_eq_square)
  have r: "((- 50) :: real)\<^sup>2 = 2500"
    by (simp add: power2_eq_square)
  have a: "fl (484 / 25) = 1362338887279575 / 2 ^ 46"
    using fl_eq [of 4 "484 / 25"]
    by (simp add: round_half_even_def Let_def)
  have b: "fl (169 / 25) = 3805541685128069 / 2 ^ 49"
    using fl_eq [of 2 "169 / 25"]
    by (simp add: round_half_even_def Let_def)
  have s: "fl (1362338887279575 / 2 ^ 46 + 3805541685128069 / 2 ^ 49) = 3676063195841167 / 2 ^ 47"
    using fl_eq [of 4 "1362338887279575 / 2 ^ 46 + 3805541685128069 / 2 ^ 49"]
    by (simp add: round_half_even_def Let_def)
  have t: "fl (2500) = 2500"
    by (rule fl_int) simp_all
  have "is_inside_wafer (- (22 / 5)) (13 / 5) (- 50) = Inr ((3676063195841167 / 2 ^ 47 :: real) \<le> 2500)"
    by (rule is_inside_wafer_eval [OF x y r _ _ _ a b _ s t]) simp_all
  then show ?thesis by simp
qed

lemma degenerate_corner_4: "is_inside_wafer (3 / 5) (13 / 5) (- 50) = Inr True"
proof -
  have x: "((3 / 5) :: real)\<^sup>2 = 9 / 25"
    by (simp add: power2_eq_square)
  have y: "((13 / 5) :: real)\<^sup>2 = 169 / 25"
    by (simp add: power2_eq_square)
  have r: "((- 50) :: real)\<^sup>2 = 2500"
    by (simp add: power2_eq_square)
  have a: "fl (9 / 25) = 3242591731706757 / 2 ^ 53"
    using fl_eq [of "- 2" "9 / 25"]
    by (simp add: round_half_even_def Let_def)
  have b: "fl (169 / 25) = 3805541685128069 / 2 ^ 49"
    using fl_eq [of 2 "169 / 25"]
    by (simp add: round_half_even_def Let_def)
  have s: "fl (3242591731706757 / 2 ^ 53 + 3805541685128069 / 2 ^ 49) = 8016407336719483 / 2 ^ 50"
    using fl_eq [of 2 "3242591731706757 / 2 ^ 53 + 3805541685128069 / 2 ^ 49"]
    by (simp add: round_half_even_def Let_def)
  have t: "fl (2500) = 2500"
    by (rule fl_int) simp_all
  have "is_inside_wafer (3 / 5) (13 / 5) (- 50) = Inr ((8016407336719483 / 2 ^ 50 :: real) \<le> 2500)"
    by (rule is_inside_wafer_eval [OF x y r _ _ _ a b _ s t]) simp_all
  then show ?thesis by simp
qed

lemma degenerate_wafer_die:
  "classify_die (make_die (- 4.4) (- 2.4) 5 5) ''Wafer'' (wafer_params 300 200) =
     Inr ''good_physical''"
  by (simp add: classify_die_def corner_inside_def getitem_def make_die_def wafer_params_def
      degenerate_corner_1 degenerate_corner_2 degenerate_corner_3 degenerate_corner_4)

text \<open>
  Claim C1. A wafer with a negative effective radius has dice classified \<^verbatim>\<open>good_physical\<close>:
  for diameter 300 and edge loss 200 the effective radius is \<open>-50\<close>, the builder places a die
  at \<open>(-4.4, -2.4)\<close>, and that die is classified \<^verbatim>\<open>good_physical\<close>.
\<close>

theorem degenerate_wafer_good_physical:
  "wafer_params 300 200 ''effective_radius'' = Some (- 50)
   \<and> (\<exists>dice. compute_geometry ''Wafer'' (wafer_params 300 200) 26 33 5 5 0.2 0.2 = Inr dice
        \<and> make_die (- 4.4) (- 2.4) 5 5 \<in> set dice)
   \<and> classify_die (make_die (- 4.4) (- 2.4) 5 5) ''Wafer'' (wafer_params 300 200) =
       Inr ''good_physical''"
proof -
  have er: "wafer_params 300 200 ''effective_radius'' = Some (- 50)"
    by (simp add: wafer_params_def Let_def)
  have ra: "getitem (wafer_params 300 200) ''radius'' = Inr 150"
    by (simp add: wafer_params_def Let_def getitem_def)
  have sp: "shot_positions ''Wafer'' (wafer_params 300 200) 26 33 =
      Inr (map (\<lambda>k. - 150 + real k * 26) [0..<12], map (\<lambda>k. - 150 + real k * 33) [0..<10])"
    by (simp add: shot_positions_def ra arange_wafer_x arange_wafer_y)
  have geo: "compute_geometry ''Wafer'' (wafer_params 300 200) 26 33 5 5 0.2 0.2 =
      Inr (concat (map (\<lambda>shot_x. concat (map (\<lambda>shot_y. shot_dice shot_x shot_y 5 6 5 5 0.2 0.2)
             (map (\<lambda>k. - 150 + real k * 33) [0..<10])))
             (map (\<lambda>k. - 150 + real k * 26) [0..<12])))"
    by (simp only: compute_geometry_def sp sum.case prod.case shot_loop_x_ok [OF num_dice_26 num_dice_33]
        append_Nil)
  have mem: "make_die (- 4.4) (- 2.4) 5 5 \<in> set (concat (map (\<lambda>shot_x. concat (map (\<lambda>shot_y. shot_dice shot_x shot_y 5 6 5 5 0.2 0.2)
             (map (\<lambda>k. - 150 + real k * 33) [0..<10])))
             (map (\<lambda>k. - 150 + real k * 26) [0..<12])))"
    by (rule in_concat_map [OF shot_x_in_wafer_range], rule in_concat_map [OF shot_y_in_wafer_range], rule die_in_shot)
  have cl: "classify_die (make_die (- 4.4) (- 2.4) 5 5) ''Wafer'' (wafer_params 300 200) =
       Inr ''good_physical''"
    by (rule degenerate_wafer_die)
  from er geo mem cl show ?thesis by blast
qed

subsection \<open>Yield models\<close>

text \<open>A number from half a unit in the last place below 1 up to 1 rounds to 1.\<close>

lemma fl_near_one:
  assumes "1 - 1 / 2 ^ 54 \<le> y" and "y \<le> 1"
  shows "fl y = 1"
proof (cases "y = 1")
  case True
  then show ?thesis by (simp add: fl_one)
next
  case False
  with assms(2) have y1: "y < 1" by simp
  have y0: "1 / 2 \<le> y" using assms(1) by simp
  then have ypos: "0 < y" by simp
  define m where "m = y * 2 ^ 53"
  have lo: "2 ^ 53 - 1 / 2 \<le> m"
    using assms(1) by (simp add: m_def field_simps)
  have hi: "m < 2 ^ 53"
    using y1 by (simp add: m_def)
  have f: "\<lfloor>m\<rfloor> = 2 ^ 53 - 1"
    using lo hi by (simp add: floor_eq_iff)
  have d: "1 / 2 \<le> m - of_int \<lfloor>m\<rfloor>"
    unfolding f using lo by simp
  have odd: "\<not> even (2 ^ 53 - 1 :: int)" by simp
  have r: "round_half_even m = 2 ^ 53"
    unfolding round_half_even_def Let_def using d odd by (simp add: f)
  have q: "\<bar>y\<bar> / 2 powi (- 1 - 52) = m"
    using ypos by (simp add: m_def power_int_minus field_simps)
  have "fl y = sgn y * of_int (round_half_even (\<bar>y\<bar> / 2 powi (- 1 - 52))) * 2 powi (- 1 - 52)"
    using y0 y1 ypos by (intro fl_eq) (simp_all add: power_int_minus)
  also have "\<dots> = 1"
    unfolding q r using ypos by (simp add: power_int_minus)
  finally show ?thesis .
qed

lemma fl_exp_small:
  assumes "0 \<le> D" and "D \<le> 1 / 2 ^ 54"
  shows "fl (exp (- D)) = 1" and "\<not> overflows (exp (- D))"
proof -
  have "1 + (- D) \<le> exp (- D)" by (rule exp_ge_add_one_self)
  then have lo: "1 - 1 / 2 ^ 54 \<le> exp (- D)" using assms(2) by simp
  have hi: "exp (- D) \<le> 1" using assms(1) by simp
  from lo hi show "fl (exp (- D)) = 1" by (rule fl_near_one)
  have "(1 :: real) < 2 ^ 1023" by simp
  with hi have "exp (- D) < 2 ^ 1023" by (rule le_less_trans)
  then have "\<bar>exp (- D)\<bar> < 2 ^ 1023" by (simp only: abs_exp_cancel)
  then show "\<not> overflows (exp (- D))" by (rule not_overflows)
qed

lemma one_minus_exp_lower:
  assumes "0 < (D :: real)"
  shows "1 / (1 + D) \<le> (1 - exp (- D)) / D"
proof -
  have "1 + D \<le> exp D" by (rule exp_ge_add_one_self)
  then have "exp (- D) \<le> 1 / (1 + D)"
    using assms by (simp add: exp_minus field_simps)
  then have "D / (1 + D) \<le> 1 - exp (- D)"
    using assms by (simp add: field_simps)
  then show ?thesis
    using assms by (simp add: field_simps)
qed

text \<open>The double of the literal \<^verbatim>\<open>1e-18\<close>, and the defect parameter for a critical area of 25.\<close>

lemma fl_1em18: "fl (1 / 10 ^ 18) = 5192296858534828 / 2 ^ 112"
  using fl_eq [of "- 60" "1 / 10 ^ 18"] by (simp add: round_half_even_def Let_def)

lemma fl_quarter: "fl (1 / 4) = 1 / 4"
  using fl_eq [of "- 2" "1 / 4"] by (simp add: round_half_even_def Let_def)

lemma small_rate_area: "fdiv (Fin 25) (Fin 100) = Inr (Fin (1 / 4))"
  by (simp add: fdiv_def rnd_def overflows_def fl_quarter)

lemma small_rate_D:
  "fmul (Fin (fl (1 / 10 ^ 18))) (Fin (1 / 4)) = Fin (5192296858534828 / 2 ^ 114)"
proof -
  have "fl (5192296858534828 / 2 ^ 112 * (1 / 4)) = 5192296858534828 / 2 ^ 114"
    using fl_eq [of "- 62" "5192296858534828 / 2 ^ 112 * (1 / 4)"]
    by (simp add: round_half_even_def Let_def)
  moreover have "\<not> overflows (5192296858534828 / 2 ^ 112 * (1 / 4))"
    by (rule not_overflows) simp
  ultimately show ?thesis
    unfolding fl_1em18 by (simp only: fmul.simps rnd_def if_False)
qed

lemma small_rate_exp:
  "fexp (fneg (Fin (5192296858534828 / 2 ^ 114))) = Inr (Fin 1)"
proof -
  have "fl (exp (- (5192296858534828 / 2 ^ 114))) = 1"
    and "\<not> overflows (exp (- (5192296858534828 / 2 ^ 114)))"
    by (rule fl_exp_small; simp)+
  then show ?thesis by (simp only: fneg.simps fexp.simps if_False)
qed

lemma small_rate_double:
  "fmul (Fin 2) (Fin (5192296858534828 / 2 ^ 114)) = Fin (5192296858534828 / 2 ^ 113)"
  "fmul (Fin (- 2)) (Fin (5192296858534828 / 2 ^ 114)) = Fin (- (5192296858534828 / 2 ^ 113))"
proof -
  have a: "fl (5192296858534828 / 2 ^ 113) = 5192296858534828 / 2 ^ 113"
    using fl_eq [of "- 61" "5192296858534828 / 2 ^ 113"]
    by (simp add: round_half_even_def Let_def)
  have b: "fl (- (5192296858534828 / 2 ^ 113)) = - (5192296858534828 / 2 ^ 113)"
    unfolding fl_minus a ..
  have c: "2 * (5192296858534828 / 2 ^ 114) = (5192296858534828 / 2 ^ 113 :: real)"
    "- 2 * (5192296858534828 / 2 ^ 114) = (- (5192296858534828 / 2 ^ 113) :: real)"
    by simp_all
  have o: "\<not> overflows (5192296858534828 / 2 ^ 113)"
    "\<not> overflows (- (5192296858534828 / 2 ^ 113))"
    by (rule not_overflows, simp)+
  show "fmul (Fin 2) (Fin (5192296858534828 / 2 ^ 114)) = Fin (5192296858534828 / 2 ^ 113)"
    unfolding fmul.simps c rnd_def using o(1) a by (simp only: if_False)
  show "fmul (Fin (- 2)) (Fin (5192296858534828 / 2 ^ 114)) =
      Fin (- (5192296858534828 / 2 ^ 113))"
    unfolding fmul.simps c rnd_def using o(2) b by (simp only: if_False)
qed

lemma small_rate_exp_double:
  "fexp (Fin (- (5192296858534828 / 2 ^ 113))) = Inr (Fin 1)"
proof -
  have "fl (exp (- (5192296858534828 / 2 ^ 113))) = 1"
    and "\<not> overflows (exp (- (5192296858534828 / 2 ^ 113)))"
    by (rule fl_exp_small; simp)+
  then show ?thesis by (simp only: fexp.simps if_False)
qed

lemma zero_quotient: "d \<noteq> 0 \<Longrightarrow> fdiv (fsub (Fin 1) (Fin 1)) (Fin d) = Inr (Fin 0)"
  by (simp add: fdiv_def fsub_def rnd_def overflows_def fl_zero)

lemma fpow2_zero: "fpow2 (Fin 0) = Inr (Fin 0)"
  by (simp add: overflows_def fl_zero)

text \<open>
  Claim C6. At the defect rate \<^verbatim>\<open>1e-18\<close> and the critical area 25 the Murphy and the
  Rectangular model return \<open>0.0\<close>: \<^verbatim>\<open>math.exp(-D)\<close> rounds to \<open>1.0\<close>, so the numerator
  \<^verbatim>\<open>1 - math.exp(-D)\<close> is zero, where the formulas of the two models have a value above
  \<open>0.99\<close>.
\<close>

theorem yield_fraction_small_rate_zero:
  "compute_yield_fraction_float (fl (1 / 10 ^ 18)) 25 ''Murphy'' = Inr (Fin 0)
   \<and> compute_yield_fraction_float (fl (1 / 10 ^ 18)) 25 ''Rectangular'' = Inr (Fin 0)
   \<and> 0.99 < ((1 - exp (- (fl (1 / 10 ^ 18) * (25 / 100)))) / (fl (1 / 10 ^ 18) * (25 / 100)))\<^sup>2
   \<and> 0.99 < (1 - exp (- 2 * (fl (1 / 10 ^ 18) * (25 / 100))))
             / (2 * (fl (1 / 10 ^ 18) * (25 / 100)))"
proof -
  define D :: real where "D = 5192296858534828 / 2 ^ 114"
  have Dpos: "0 < D" and Dsmall: "D \<le> 1 / 1000"
    by (simp_all add: D_def)
  have DD: "fl (1 / 10 ^ 18) * (25 / 100) = D"
    unfolding fl_1em18 D_def by simp
  have nz: "Fin (5192296858534828 / 2 ^ 114) \<noteq> Fin 0"
    "Fin (5192296858534828 / 2 ^ 113) \<noteq> Fin 0"
    by simp_all
  have murphy: "compute_yield_fraction_float (fl (1 / 10 ^ 18)) 25 ''Murphy'' = Inr (Fin 0)"
    unfolding compute_yield_fraction_float_def small_rate_area sum.case small_rate_D Let_def
      small_rate_exp
    using nz(1) by (simp add: zero_quotient fpow2_zero del: fpow2.simps)
  have rect: "compute_yield_fraction_float (fl (1 / 10 ^ 18)) 25 ''Rectangular'' = Inr (Fin 0)"
    unfolding compute_yield_fraction_float_def small_rate_area sum.case small_rate_D Let_def
      small_rate_double small_rate_exp_double
    using nz(1) by (simp add: zero_quotient)
  have q1: "1 / (1 + D) \<le> (1 - exp (- D)) / D"
    using Dpos by (rule one_minus_exp_lower)
  have "(999 / 1000 :: real) \<le> 1 / (1 + D)"
    using Dpos Dsmall by (simp add: field_simps)
  with q1 have r1: "999 / 1000 \<le> (1 - exp (- D)) / D" by linarith
  then have "(999 / 1000)\<^sup>2 \<le> ((1 - exp (- D)) / D)\<^sup>2"
    by (rule power_mono) simp
  moreover have "(0.99 :: real) < (999 / 1000)\<^sup>2"
    by (simp add: power2_eq_square)
  ultimately have m: "0.99 < ((1 - exp (- D)) / D)\<^sup>2"
    by (rule less_le_trans [rotated])
  have D2pos: "0 < 2 * D" using Dpos by simp
  have q2: "1 / (1 + 2 * D) \<le> (1 - exp (- (2 * D))) / (2 * D)"
    using D2pos by (rule one_minus_exp_lower)
  have "(99 / 100 :: real) < 1 / (1 + 2 * D)"
    using Dpos Dsmall by (simp add: field_simps)
  with q2 have "99 / 100 < (1 - exp (- (2 * D))) / (2 * D)" by linarith
  then have r: "0.99 < (1 - exp (- 2 * D)) / (2 * D)" by simp
  from murphy rect m r show ?thesis
    unfolding DD by (intro conjI)
qed

text \<open>The models over the reals are antitone in the defect rate.\<close>

lemma poisson_mono: "0 \<le> a \<Longrightarrow> r1 \<le> r2 \<Longrightarrow>
   exp (- (r2 * (a / 100))) \<le> exp (- (r1 * (a / 100 :: real)))"
  by (simp add: mult_right_mono)

lemma moore_mono: "0 \<le> a \<Longrightarrow> r1 \<le> r2 \<Longrightarrow>
   exp (- sqrt (r2 * (a / 100))) \<le> exp (- sqrt (r1 * (a / 100 :: real)))"
  by (simp add: mult_right_mono)

lemma seeds_mono: "0 \<le> a \<Longrightarrow> 0 \<le> r1 \<Longrightarrow> r1 \<le> r2 \<Longrightarrow>
   1 / (1 + r2 * (a / 100)) \<le> 1 / (1 + r1 * (a / 100 :: real))"
proof -
  assume a: "0 \<le> a" "0 \<le> r1" "r1 \<le> r2"
  have "r1 * (a / 100) \<le> r2 * (a / 100)" using a by (simp add: mult_right_mono)
  moreover have "0 \<le> r1 * (a / 100)" using a by simp
  ultimately show ?thesis by (simp add: frac_le)
qed

text \<open>
  Claim C8. For the Poisson, Moore and Seeds models, a non-negative critical area and defect
  rates \<open>0 \<le> r1 \<le> r2\<close>, both calls return and the yield fraction at \<open>r2\<close> is at most the one
  at \<open>r1\<close>.
\<close>

theorem yield_fraction_antitone:
  assumes "0 \<le> critical_area" and "0 \<le> r1" and "r1 \<le> r2"
    and "model \<in> {''Poisson'', ''Moore'', ''Seeds''}"
  shows "\<exists>y1 y2. compute_yield_fraction r1 critical_area model = Inr y1
           \<and> compute_yield_fraction r2 critical_area model = Inr y2 \<and> y2 \<le> y1"
proof -
  have r2: "0 \<le> r2" using assms by linarith
  have D1: "0 \<le> r1 * (critical_area / 100)" and D2: "0 \<le> r2 * (critical_area / 100)"
    using assms r2 by simp_all
  then have nz: "1 + r1 * (critical_area / 100) \<noteq> 0" "1 + r2 * (critical_area / 100) \<noteq> 0"
    and nn: "\<not> r1 * (critical_area / 100) < 0" "\<not> r2 * (critical_area / 100) < 0"
    by linarith+
  consider "model = ''Poisson''" | "model = ''Moore''" | "model = ''Seeds''"
    using assms(4) by blast
  then show ?thesis
  proof cases
    case 1
    then show ?thesis
      using poisson_mono [OF assms(1,3)] by (simp add: compute_yield_fraction_def)
  next
    case 2
    then show ?thesis
      using moore_mono [OF assms(1,3)] nn by (simp add: compute_yield_fraction_def Let_def)
  next
    case 3
    then show ?thesis
      using seeds_mono [OF assms(1,2,3)] nz by (simp add: compute_yield_fraction_def Let_def)
  qed
qed

theorem yield_fraction_antitone_witness:
  "(\<exists>y1 y2. compute_yield_fraction 0.5 25 ''Poisson'' = Inr y1
        \<and> compute_yield_fraction 1 25 ''Poisson'' = Inr y2 \<and> y2 \<le> y1)
   \<and> (\<exists>y1 y2. compute_yield_fraction 0.5 25 ''Moore'' = Inr y1
        \<and> compute_yield_fraction 1 25 ''Moore'' = Inr y2 \<and> y2 \<le> y1)
   \<and> (\<exists>y1 y2. compute_yield_fraction 0.5 25 ''Seeds'' = Inr y1
        \<and> compute_yield_fraction 1 25 ''Seeds'' = Inr y2 \<and> y2 \<le> y1)"
  using yield_fraction_antitone [where critical_area = 25 and ?r1.0 = "0.5" and ?r2.0 = 1
          and model = "''Poisson''"]
        yield_fraction_antitone [where critical_area = 25 and ?r1.0 = "0.5" and ?r2.0 = 1
          and model = "''Moore''"]
        yield_fraction_antitone [where critical_area = 25 and ?r1.0 = "0.5" and ?r2.0 = 1
          and model = "''Seeds''"]
  by simp

subsection \<open>Classification and injection of a die list\<close>

lemma classify_die_status:
  "classify_die d substrate_type substrate_params = Inr s \<Longrightarrow>
   s = ''good_physical'' \<or> s = ''partial'' \<or> s = ''lost''"
  by (auto simp: classify_die_def split: sum.splits if_splits)

lemma classify_all_Inr:
  "classify_all ds substrate_type substrate_params = Inr ds' \<Longrightarrow>
   list_all2 (\<lambda>d d'. \<exists>s. classify_die d substrate_type substrate_params = Inr s
                \<and> d' = d\<lparr>status := s\<rparr>) ds ds'"
  by (induction ds arbitrary: ds') (auto split: sum.splits)

lemma classify_all_length:
  "classify_all ds substrate_type substrate_params = Inr ds' \<Longrightarrow> length ds' = length ds"
  by (drule classify_all_Inr) (simp add: list_all2_lengthD)

lemma classify_all_statuses:
  assumes "classify_all ds substrate_type substrate_params = Inr ds'" and "d' \<in> set ds'"
  shows "status d' = ''good_physical'' \<or> status d' = ''partial'' \<or> status d' = ''lost''"
proof -
  from assms(2) obtain i where i: "i < length ds'" "ds' ! i = d'"
    by (auto simp: in_set_conv_nth)
  from classify_all_Inr [OF assms(1)] i
  obtain s where "classify_die (ds ! i) substrate_type substrate_params = Inr s"
    and "d' = (ds ! i)\<lparr>status := s\<rparr>"
    by (auto simp: list_all2_conv_all_nth)
  then show ?thesis using classify_die_status by fastforce
qed

lemma inject_loop_length:
  "length (fst (inject_loop random_fn ds yield_fraction g)) = length ds"
  by (induction ds arbitrary: g) (simp_all add: split_beta)

lemma inject_loop_frame:
  "list_all2 (\<lambda>d d'. if status d = ''good_physical''
                      then (status d' = ''good'' \<or> status d' = ''defective'')
                           \<and> d' = d\<lparr>status := status d'\<rparr>
                      else d' = d)
     ds (fst (inject_loop random_fn ds yield_fraction g))"
  by (induction ds arbitrary: g) (simp_all add: split_beta)

lemma inject_loop_statuses:
  assumes "\<forall>d \<in> set ds. status d = ''good_physical'' \<or> status d = ''partial'' \<or> status d = ''lost''"
    and "d' \<in> set (fst (inject_loop random_fn ds yield_fraction g))"
  shows "status d' = ''good'' \<or> status d' = ''defective'' \<or> status d' = ''partial''
         \<or> status d' = ''lost''"
proof -
  let ?ds' = "fst (inject_loop random_fn ds yield_fraction g)"
  from assms(2) obtain i where i: "i < length ?ds'" "?ds' ! i = d'"
    by (auto simp: in_set_conv_nth)
  then have il: "i < length ds" by (simp add: inject_loop_length)
  from inject_loop_frame [of ds random_fn yield_fraction g] i il
  have rel: "if status (ds ! i) = ''good_physical''
        then (status d' = ''good'' \<or> status d' = ''defective'') \<and> d' = (ds ! i)\<lparr>status := status d'\<rparr>
        else d' = ds ! i"
    by (auto simp: list_all2_conv_all_nth)
  from assms(1) il have "status (ds ! i) = ''good_physical'' \<or> status (ds ! i) = ''partial''
      \<or> status (ds ! i) = ''lost''"
    by simp
  with rel show ?thesis by (auto split: if_splits)
qed

lemma inject_loop_deterministic:
  "map status ds1 = map status ds2 \<Longrightarrow>
   map status (fst (inject_loop random_fn ds1 yield_fraction g)) =
   map status (fst (inject_loop random_fn ds2 yield_fraction g))
   \<and> snd (inject_loop random_fn ds1 yield_fraction g) =
     snd (inject_loop random_fn ds2 yield_fraction g)"
proof (induction ds1 arbitrary: ds2 g)
  case Nil
  then show ?case by simp
next
  case (Cons d ds1)
  then obtain e ds2' where ds2: "ds2 = e # ds2'" and st: "status d = status e"
    and rest: "map status ds1 = map status ds2'"
    by (cases ds2) auto
  show ?case
    using Cons.IH [OF rest] st unfolding ds2
    by (simp add: split_beta)
qed

lemma inject_defects_length:
  "length (fst (inject_defects seed_fn random_fn ds yf seed g)) = length ds"
  by (simp add: inject_defects_def inject_loop_length)

lemma inject_defects_statuses:
  "\<forall>d \<in> set ds. status d = ''good_physical'' \<or> status d = ''partial'' \<or> status d = ''lost'' \<Longrightarrow>
   d' \<in> set (fst (inject_defects seed_fn random_fn ds yf seed g)) \<Longrightarrow>
   status d' = ''good'' \<or> status d' = ''defective'' \<or> status d' = ''partial''
     \<or> status d' = ''lost''"
  unfolding inject_defects_def by (rule inject_loop_statuses)

lemma inject_defects_seeded:
  "map status ds1 = map status ds2 \<Longrightarrow>
   map status (fst (inject_defects seed_fn random_fn ds1 yf (Some s) g1)) =
   map status (fst (inject_defects seed_fn random_fn ds2 yf (Some s) g2))"
  unfolding inject_defects_def option.case by (rule inject_loop_deterministic [THEN conjunct1])

lemma inject_defects_seeded_state:
  "inject_defects seed_fn random_fn ds yf (Some s) g1 =
   inject_defects seed_fn random_fn ds yf (Some s) g2"
  by (simp add: inject_defects_def)

subsection \<open>Tallies\<close>

lemma count_status_Cons:
  "count_status s (d # ds) = (if status d = s then 1 else 0) + count_status s ds"
  by (simp add: count_status_def)

lemma count_status_Nil: "count_status s [] = 0"
  by (simp add: count_status_def)

lemma count_partition:
  "\<forall>d \<in> set ds. status d = ''good'' \<or> status d = ''defective'' \<or> status d = ''partial''
       \<or> status d = ''lost'' \<Longrightarrow>
   count_status ''good'' ds + count_status ''defective'' ds + count_status ''partial'' ds
     + count_status ''lost'' ds = length ds"
proof (induction ds)
  case Nil
  then show ?case by (simp add: count_status_Nil)
next
  case (Cons d ds)
  then have IH: "count_status ''good'' ds + count_status ''defective'' ds
      + count_status ''partial'' ds + count_status ''lost'' ds = length ds"
    by simp
  from Cons.prems consider "status d = ''good''" | "status d = ''defective''"
    | "status d = ''partial''" | "status d = ''lost''"
    by auto
  then show ?case
    by cases (simp_all add: count_status_Cons IH [symmetric])
qed

lemma count_good_or_defective:
  "length (filter (\<lambda>d. status d \<in> set [''good'', ''defective'']) ds) =
   count_status ''good'' ds + count_status ''defective'' ds"
  by (induction ds) (simp_all add: count_status_Cons count_status_Nil)

lemma tally_fields:
  "total_r (tally ds ref) = length ds"
  "good (tally ds ref) = count_status ''good'' ds"
  "defective (tally ds ref) = count_status ''defective'' ds"
  "partial (tally ds ref) = count_status ''partial'' ds"
  "lost (tally ds ref) = count_status ''lost'' ds"
  "good_physical (tally ds ref) = count_status ''good'' ds + count_status ''defective'' ds"
  "fab_yield (tally ds ref) =
     (if count_status ''good'' ds + count_status ''defective'' ds > 0
      then real (count_status ''good'' ds)
           / real (count_status ''good'' ds + count_status ''defective'' ds)
      else 0)"
  "dice (tally ds ref) = ref"
  unfolding tally_def Let_def count_good_or_defective by simp_all

lemma ratio_bounds: "0 \<le> real a / real (a + b) \<and> real a / real (a + b) \<le> 1"
proof (cases "a + b = 0")
  case True
  then show ?thesis by simp
next
  case False
  then have "0 < a + b" by simp
  then have "0 < real (a + b)" by (simp only: of_nat_0_less_iff)
  moreover have "real a \<le> real (a + b)" by simp
  ultimately show ?thesis by (simp only: divide_le_eq_1_pos) simp
qed

lemma tally_partition:
  assumes "\<And>d. d \<in> set ds \<Longrightarrow> status d = ''good'' \<or> status d = ''defective''
      \<or> status d = ''partial'' \<or> status d = ''lost''"
  shows "good (tally ds ref) + defective (tally ds ref) + partial (tally ds ref)
           + lost (tally ds ref) = total_r (tally ds ref)"
proof -
  have "\<forall>d \<in> set ds. status d = ''good'' \<or> status d = ''defective''
      \<or> status d = ''partial'' \<or> status d = ''lost''"
    using assms by (rule ballI)
  then show ?thesis
    unfolding tally_fields by (rule count_partition)
qed

lemma tally_good_physical: "good_physical (tally ds ref) = good (tally ds ref) + defective (tally ds ref)"
  by (simp only: tally_fields)

lemma tally_fab_yield:
  "fab_yield (tally ds ref) =
     (if good (tally ds ref) + defective (tally ds ref) > 0
      then real (good (tally ds ref)) / real (good (tally ds ref) + defective (tally ds ref))
      else 0)"
  by (simp only: tally_fields)

subsection \<open>Monte Carlo runner\<close>

lemma run_body_classified:
  "classify_all base_dice st ps = Inr cls \<Longrightarrow>
   run_body seed_fn random_fn base_dice st ps yf random_seed run g =
     (let inj = inject_defects seed_fn random_fn cls yf
                  (case random_seed of None \<Rightarrow> None | Some s \<Rightarrow> Some (s + run)) g
      in Inr (tally (fst inj) (fst inj), snd inj))"
  by (simp add: run_body_def split_beta Let_def)

lemma run_body_failed:
  "classify_all base_dice st ps = Inl e \<Longrightarrow>
   run_body seed_fn random_fn base_dice st ps yf random_seed run g = Inl e"
  by (simp add: run_body_def)

lemma run_body_Inr_classified:
  assumes "run_body seed_fn random_fn base_dice st ps yf random_seed run g = Inr (r, g')"
  obtains cls where "classify_all base_dice st ps = Inr cls"
proof (cases "classify_all base_dice st ps")
  case (Inl e)
  with assms show ?thesis by (simp add: run_body_failed)
next
  case (Inr cls)
  then show ?thesis by (rule that)
qed

lemma run_body_result:
  assumes "run_body seed_fn random_fn base_dice st ps yf random_seed run g = Inr (r, g')"
  shows "good r + defective r + partial r + lost r = total_r r
       \<and> good_physical r = good r + defective r
       \<and> fab_yield r = (if good r + defective r > 0
                         then real (good r) / real (good r + defective r) else 0)
       \<and> total_r r = length base_dice \<and> length (dice r) = length base_dice"
proof -
  from assms obtain cls where cls: "classify_all base_dice st ps = Inr cls"
    by (rule run_body_Inr_classified)
  define ds where "ds = fst (inject_defects seed_fn random_fn cls yf
      (case random_seed of None \<Rightarrow> None | Some s \<Rightarrow> Some (s + run)) g)"
  have "Inr (r, g') = run_body seed_fn random_fn base_dice st ps yf random_seed run g"
    using assms by (rule sym)
  also have "\<dots> = Inr (tally ds ds, snd (inject_defects seed_fn random_fn cls yf
      (case random_seed of None \<Rightarrow> None | Some s \<Rightarrow> Some (s + run)) g))"
    unfolding run_body_classified [OF cls] ds_def Let_def by (rule refl)
  finally have r: "r = tally ds ds" by simp
  have len: "length ds = length base_dice"
    unfolding ds_def inject_defects_length by (rule classify_all_length [OF cls])
  have st: "status d = ''good'' \<or> status d = ''defective'' \<or> status d = ''partial''
      \<or> status d = ''lost''" if "d \<in> set ds" for d
  proof (rule inject_defects_statuses [OF _ that [unfolded ds_def]])
    show "\<forall>d\<in>set cls. status d = ''good_physical'' \<or> status d = ''partial'' \<or> status d = ''lost''"
      by (rule ballI) (rule classify_all_statuses [OF cls])
  qed
  have p1: "good r + defective r + partial r + lost r = total_r r"
    unfolding r by (rule tally_partition) (rule st)
  have p2: "good_physical r = good r + defective r"
    unfolding r by (rule tally_good_physical)
  have p3: "fab_yield r = (if good r + defective r > 0
                         then real (good r) / real (good r + defective r) else 0)"
    unfolding r by (rule tally_fab_yield)
  have p4: "total_r r = length base_dice"
    unfolding r tally_fields(1) by (rule len)
  have p5: "length (dice r) = length base_dice"
    unfolding r tally_fields(8) by (rule len)
  from p1 p2 p3 p4 p5 show ?thesis by (intro conjI)
qed

lemma classify_die_valid:
  assumes "valid_inputs ds st ps" and "d \<in> set ds"
  shows "\<exists>s. classify_die d st ps = Inr s"
proof (cases "st = ''Wafer''")
  case True
  with assms(1) obtain r where r: "ps ''effective_radius'' = Some r" "\<not> overflows (r\<^sup>2)"
    and "\<forall>d \<in> set ds. \<forall>c \<in> set (corners d).
           \<not> overflows ((fst c)\<^sup>2) \<and> \<not> overflows ((snd c)\<^sup>2)"
    by (auto simp: valid_inputs_def split: option.splits)
  with assms(2) have "\<forall>c \<in> set (corners d). \<not> overflows ((fst c)\<^sup>2) \<and> \<not> overflows ((snd c)\<^sup>2)"
    by blast
  from classify_die_wafer [of ps r d, OF r this] show ?thesis
    unfolding True by blast
next
  case False
  with assms(1) obtain pw ph m where "ps ''panel_width'' = Some pw" "ps ''panel_height'' = Some ph"
    "ps ''edge_loss'' = Some m"
    by (auto simp: valid_inputs_def)
  with False show ?thesis by (simp add: classify_die_panel)
qed

lemma classify_all_valid_subset:
  assumes "valid_inputs base st ps"
  shows "set ds \<subseteq> set base \<Longrightarrow> \<exists>cls. classify_all ds st ps = Inr cls"
proof (induction ds)
  case Nil
  show ?case by simp
next
  case (Cons d ds)
  from Cons.prems have "d \<in> set base" by simp
  from classify_die_valid [OF assms this] obtain s where "classify_die d st ps = Inr s" by blast
  moreover from Cons obtain cls where "classify_all ds st ps = Inr cls" by auto
  ultimately show ?case by simp
qed

lemma classify_all_valid:
  "valid_inputs ds st ps \<Longrightarrow> \<exists>cls. classify_all ds st ps = Inr cls"
  by (erule classify_all_valid_subset) simp

lemma run_loop_results:
  assumes "run_loop seed_fn random_fn base_dice st ps yf random_seed runs acc g = Inr (results, g')"
    and "r \<in> set results"
  shows "r \<in> set acc \<or>
     (\<exists>run g1 g2. run_body seed_fn random_fn base_dice st ps yf random_seed run g1 = Inr (r, g2))"
  using assms
proof (induction runs arbitrary: acc g)
  case Nil
  then show ?case by simp
next
  case (Cons run runs)
  show ?case
  proof (cases "run_body seed_fn random_fn base_dice st ps yf random_seed run g")
    case (Inl e)
    with Cons.prems(1) show ?thesis by simp
  next
    case (Inr p)
    obtain r1 g1 where p: "p = (r1, g1)" by (cases p)
    from Cons.prems(1) have l: "run_loop seed_fn random_fn base_dice st ps yf random_seed runs
        (acc @ [r1]) g1 = Inr (results, g')"
      by (simp add: Inr p)
    from Cons.IH [OF l Cons.prems(2)] show ?thesis
    proof
      assume "r \<in> set (acc @ [r1])"
      then have "r \<in> set acc \<or> r = r1" by auto
      then show ?thesis using Inr p by blast
    next
      assume "\<exists>run g1 g2. run_body seed_fn random_fn base_dice st ps yf random_seed run g1 =
          Inr (r, g2)"
      then show ?thesis by (rule disjI2)
    qed
  qed
qed

lemma run_loop_classified:
  assumes "classify_all base_dice st ps = Inr cls"
  shows "\<exists>new g'. run_loop seed_fn random_fn base_dice st ps yf random_seed runs acc g =
            Inr (acc @ new, g') \<and> length new = length runs"
proof (induction runs arbitrary: acc g)
  case Nil
  show ?case by simp
next
  case (Cons run runs)
  obtain r1 g1 where b: "run_body seed_fn random_fn base_dice st ps yf random_seed run g =
      Inr (r1, g1)"
    unfolding run_body_classified [OF assms] Let_def by blast
  from Cons [of "acc @ [r1]" g1] obtain new g' where
    "run_loop seed_fn random_fn base_dice st ps yf random_seed runs (acc @ [r1]) g1 =
       Inr ((acc @ [r1]) @ new, g')" and "length new = length runs"
    by blast
  then have "run_loop seed_fn random_fn base_dice st ps yf random_seed (run # runs) acc g =
      Inr (acc @ (r1 # new), g') \<and> length (r1 # new) = length (run # runs)"
    by (simp add: b)
  then show ?case by blast
qed

lemma run_simulation_valid:
  assumes "valid_inputs base_dice st ps"
  shows "\<exists>results g'. run_simulation seed_fn random_fn sim_runs base_dice st ps yf random_seed g =
            Inr (results, g') \<and> length results = nat sim_runs"
proof -
  from classify_all_valid [OF assms] obtain cls where cls: "classify_all base_dice st ps = Inr cls"
    by blast
  from run_loop_classified [OF cls, of seed_fn random_fn yf random_seed
      "map int [0..<nat sim_runs]" "[]" g]
  show ?thesis by (simp add: run_simulation_def)
qed

lemma run_simulation_no_runs:
  "sim_runs < 1 \<Longrightarrow>
   run_simulation seed_fn random_fn sim_runs base_dice st ps yf random_seed g = Inr ([], g)"
  by (simp add: run_simulation_def)

lemma wafer_300_valid:
  assumes "\<forall>d \<in> set ds. \<forall>c \<in> set (corners d). \<bar>fst c\<bar> < 2 ^ 511 \<and> \<bar>snd c\<bar> < 2 ^ 511"
  shows "valid_inputs ds ''Wafer'' (wafer_params 300 0)"
proof -
  have "\<not> overflows ((150 :: real)\<^sup>2)"
    by (rule not_overflows_square) simp
  then show ?thesis
    using assms by (simp add: valid_inputs_def wafer_params_def not_overflows_square)
qed

lemma run_loop_seeded:
  assumes "classify_all base_dice st ps = Inr cls"
  shows "\<exists>g'. run_loop seed_fn random_fn base_dice st ps yf (Some base_seed) runs acc g =
     Inr (acc @ map (\<lambda>run. let ds = fst (inject_defects seed_fn random_fn cls yf
                                            (Some (base_seed + run)) g0)
                             in tally ds ds) runs, g')"
proof (induction runs arbitrary: acc g)
  case Nil
  show ?case by simp
next
  case (Cons run runs)
  define r1 where "r1 = (let ds = fst (inject_defects seed_fn random_fn cls yf
                                            (Some (base_seed + run)) g0)
                             in tally ds ds)"
  define g1 where "g1 = snd (inject_defects seed_fn random_fn cls yf (Some (base_seed + run)) g)"
  have b: "run_body seed_fn random_fn base_dice st ps yf (Some base_seed) run g = Inr (r1, g1)"
    unfolding run_body_classified [OF assms] r1_def g1_def Let_def
    by (simp add: inject_defects_seeded_state [of _ _ _ _ _ g g0])
  from Cons [of "acc @ [r1]" g1] obtain g' where
    "run_loop seed_fn random_fn base_dice st ps yf (Some base_seed) runs (acc @ [r1]) g1 =
     Inr ((acc @ [r1]) @ map (\<lambda>run. let ds = fst (inject_defects seed_fn random_fn cls yf
                                            (Some (base_seed + run)) g0)
                             in tally ds ds) runs, g')"
    by blast
  then have "run_loop seed_fn random_fn base_dice st ps yf (Some base_seed) (run # runs) acc g =
     Inr (acc @ map (\<lambda>run. let ds = fst (inject_defects seed_fn random_fn cls yf
                                            (Some (base_seed + run)) g0)
                             in tally ds ds) (run # runs), g')"
    by (simp add: b r1_def)
  then show ?case by blast
qed

lemma run_simulation_seeded:
  assumes "classify_all base_dice st ps = Inr cls"
  shows "\<exists>g'. run_simulation seed_fn random_fn n base_dice st ps yf (Some base_seed) g =
     Inr (map (\<lambda>k. let ds = fst (inject_defects seed_fn random_fn cls yf
                                   (Some (base_seed + int k)) g0)
                    in tally ds ds) [0..<nat n], g')"
  using run_loop_seeded [OF assms, of seed_fn random_fn yf base_seed "map int [0..<nat n]" "[]" g g0]
  by (simp add: run_simulation_def comp_def)

text \<open>
  Claim C3. Every trial result that \<^verbatim>\<open>run_simulation\<close> returns has
  \<open>good + defective + partial + lost = total\<close>, where \<open>total\<close> is the number of dice; its
  \<open>good_physical\<close> count is \<open>good + defective\<close>; its \<open>fab_yield\<close> is \<open>good / (good + defective)\<close>
  when that sum is positive and 0 otherwise, and lies in \<open>[0, 1]\<close>.
\<close>

theorem trial_result_partition:
  assumes "run_simulation seed_fn random_fn sim_runs base_dice substrate_type substrate_params
             yield_fraction random_seed g = Inr (results, g')"
    and "r \<in> set results"
  shows "good r + defective r + partial r + lost r = total_r r
       \<and> total_r r = length base_dice
       \<and> good_physical r = good r + defective r
       \<and> fab_yield r = (if good r + defective r > 0
                         then real (good r) / real (good r + defective r) else 0)
       \<and> 0 \<le> fab_yield r \<and> fab_yield r \<le> 1"
proof -
  from run_loop_results [OF assms(1) [unfolded run_simulation_def] assms(2)]
  obtain run g1 g2 where
    "run_body seed_fn random_fn base_dice substrate_type substrate_params yield_fraction
       random_seed run g1 = Inr (r, g2)"
    by auto
  from run_body_result [OF this]
  have p: "good r + defective r + partial r + lost r = total_r r"
    and t: "total_r r = length base_dice"
    and gp: "good_physical r = good r + defective r"
    and fy: "fab_yield r = (if good r + defective r > 0
                         then real (good r) / real (good r + defective r) else 0)"
    by blast+
  have "0 \<le> fab_yield r \<and> fab_yield r \<le> 1"
    unfolding fy using ratio_bounds [of "good r" "defective r"] by simp
  with p t gp fy show ?thesis by blast
qed

theorem trial_result_partition_witness:
  "\<exists>results g'.
     run_simulation lcg_seed lcg_random 2
       [make_die 0 0 5 5, make_die 148 0 5 5, make_die 200 200 5 5]
       ''Wafer'' (wafer_params 300 0) 0.42 (Some 42) 0 = Inr (results, g')
     \<and> length results = 2
     \<and> good (results ! 1) + defective (results ! 1) + partial (results ! 1) + lost (results ! 1)
         = total_r (results ! 1)
     \<and> total_r (results ! 1) = 3
     \<and> good_physical (results ! 1) = good (results ! 1) + defective (results ! 1)
     \<and> 0 \<le> fab_yield (results ! 1) \<and> fab_yield (results ! 1) \<le> 1"
proof -
  have "valid_inputs [make_die 0 0 5 5, make_die 148 0 5 5, make_die 200 200 5 5]
      ''Wafer'' (wafer_params 300 0)"
    by (rule wafer_300_valid) (simp add: make_die_def)
  from run_simulation_valid [OF this, of lcg_seed lcg_random 2 "0.42" "Some 42" 0]
  obtain results g' where run: "run_simulation lcg_seed lcg_random 2
       [make_die 0 0 5 5, make_die 148 0 5 5, make_die 200 200 5 5]
       ''Wafer'' (wafer_params 300 0) 0.42 (Some 42) 0 = Inr (results, g')"
    and len: "length results = 2"
    by auto
  from len have "results ! 1 \<in> set results" by simp
  from trial_result_partition [OF run this] run len show ?thesis by auto
qed

text \<open>
  Claim C2, as the code has it. \<^verbatim>\<open>run_simulation\<close> checks nothing: with fewer than one run
  the loop over \<^verbatim>\<open>range(sim_runs)\<close> is empty and the call returns the empty list of results
  (no result is produced, and nothing is raised). With at least one run and valid geometry
  and substrate inputs, whose squares the wafer test can take, no trial raises and the call
  returns one result per run.
\<close>

theorem run_simulation_trial_count:
  "(sim_runs < 1 \<longrightarrow>
      run_simulation seed_fn random_fn sim_runs base_dice substrate_type substrate_params
        yield_fraction random_seed g = Inr ([], g))
   \<and> (1 \<le> sim_runs \<and> valid_inputs base_dice substrate_type substrate_params \<longrightarrow>
        (\<exists>results g'.
           run_simulation seed_fn random_fn sim_runs base_dice substrate_type substrate_params
             yield_fraction random_seed g = Inr (results, g')
           \<and> length results = nat sim_runs))"
  using run_simulation_no_runs [of sim_runs seed_fn random_fn base_dice substrate_type
          substrate_params yield_fraction random_seed g]
        run_simulation_valid [of base_dice substrate_type substrate_params seed_fn random_fn
          sim_runs yield_fraction random_seed g]
  by blast

theorem run_simulation_trial_count_witness:
  "run_simulation lcg_seed lcg_random (- 2) [make_die 0 0 5 5] ''Wafer'' (wafer_params 300 0)
     0.88 (Some 42) 7 = Inr ([], 7)
   \<and> (\<exists>results g'.
         run_simulation lcg_seed lcg_random 3 [make_die 0 0 5 5] ''Wafer'' (wafer_params 300 0)
           0.88 (Some 42) 7 = Inr (results, g')
         \<and> length results = 3)"
proof -
  have "valid_inputs [make_die 0 0 5 5] ''Wafer'' (wafer_params 300 0)"
    by (rule wafer_300_valid) (simp add: make_die_def)
  with run_simulation_trial_count [of "- 2" lcg_seed lcg_random "[make_die 0 0 5 5]" "''Wafer''"
          "wafer_params 300 0" "0.88" "Some 42" 7]
       run_simulation_trial_count [of 3 lcg_seed lcg_random "[make_die 0 0 5 5]" "''Wafer''"
          "wafer_params 300 0" "0.88" "Some 42" 7]
  show ?thesis by simp
qed

text \<open>
  Claim C2 as stated fails twice. A call with \<^verbatim>\<open>sim_runs = 0\<close> does not fail, it returns the
  empty list. And a trial raises on a wafer whose keys are all there: for the diameter
  \<open>2\<^sup>6\<^sup>0\<^sup>1\<close>, a double, the square of the effective radius \<open>2\<^sup>6\<^sup>0\<^sup>0\<close> is beyond the doubles and the
  first trial raises \<^verbatim>\<open>OverflowError\<close>.
\<close>

theorem run_simulation_zero_trials_returns:
  "run_simulation lcg_seed lcg_random 0 [make_die 0 0 5 5] ''Wafer'' (wafer_params 300 0)
     0.88 (Some 42) 7 = Inr ([], 7)
   \<and> run_simulation lcg_seed lcg_random 1 [make_die 0 0 5 5] ''Wafer'' (wafer_params (2 ^ 601) 0)
       0.88 (Some 42) 7 = Inl OverflowError"
proof -
  have "classify_die (make_die 0 0 5 5) ''Wafer'' (wafer_params (2 ^ 601) 0) = Inl OverflowError"
    by (simp add: classify_eval wafer_params_def)
  then have "run_simulation lcg_seed lcg_random 1 [make_die 0 0 5 5] ''Wafer''
       (wafer_params (2 ^ 601) 0) 0.88 (Some 42) 7 = Inl OverflowError"
    by (simp add: run_simulation_def run_body_def)
  then show ?thesis by (simp add: run_simulation_def)
qed

subsection \<open>Frame of the store operations\<close>

lemma length_set_status: "length (set_status h a s) = length h"
  by (simp add: set_status_def)

lemma nth_set_status_other: "b \<noteq> a \<Longrightarrow> set_status h a s ! b = h ! b"
  by (simp add: set_status_def)

lemma nth_set_status_same: "a < length h \<Longrightarrow> set_status h a s ! a = (h ! a)\<lparr>status := s\<rparr>"
  by (simp add: set_status_def)

lemma take_set_status: "n \<le> a \<Longrightarrow> take n (set_status h a s) = take n h"
  by (simp add: set_status_def)

text \<open>Injection over the store: what one call may change.\<close>

lemma length_inject_loop_s:
  "length (fst (inject_loop_s random_fn h as yf g)) = length h"
  by (induction as arbitrary: h g) (simp_all add: split_beta length_set_status)

lemma inject_loop_s_other:
  "a \<notin> set as \<Longrightarrow> fst (inject_loop_s random_fn h as yf g) ! a = h ! a"
  by (induction as arbitrary: h g) (simp_all add: split_beta nth_set_status_other)

lemma inject_loop_s_not_good_physical:
  "status (h ! a) \<noteq> ''good_physical'' \<Longrightarrow> fst (inject_loop_s random_fn h as yf g) ! a = h ! a"
proof (induction as arbitrary: h g)
  case Nil
  show ?case by simp
next
  case (Cons b as)
  show ?case
  proof (cases "status (h ! b) = ''good_physical''")
    case True
    then have ne: "a \<noteq> b" using Cons.prems by auto
    define s where "s = (if fst (random_fn g) < yf then ''good'' else ''defective'')"
    have "status (set_status h b s ! a) \<noteq> ''good_physical''"
      using Cons.prems ne by (simp add: nth_set_status_other)
    from Cons.IH [OF this] show ?thesis
      using True ne by (simp add: split_beta s_def nth_set_status_other)
  next
    case False
    then show ?thesis using Cons.IH [OF Cons.prems] by simp
  qed
qed

lemma inject_loop_s_geometry:
  "die_x (fst (inject_loop_s random_fn h as yf g) ! a) = die_x (h ! a)
   \<and> die_y (fst (inject_loop_s random_fn h as yf g) ! a) = die_y (h ! a)
   \<and> corners (fst (inject_loop_s random_fn h as yf g) ! a) = corners (h ! a)"
proof (induction as arbitrary: h g)
  case Nil
  show ?case by simp
next
  case (Cons b as)
  have step: "die_x (set_status h b s ! a) = die_x (h ! a)
      \<and> die_y (set_status h b s ! a) = die_y (h ! a)
      \<and> corners (set_status h b s ! a) = corners (h ! a)" for s
    by (cases "a = b"; cases "b < length h") (simp_all add: set_status_def list_update_beyond)
  show ?case
  proof (cases "status (h ! b) = ''good_physical''")
    case True
    define s where "s = (if fst (random_fn g) < yf then ''good'' else ''defective'')"
    from Cons.IH [of "set_status h b s" "snd (random_fn g)"] step [of s] True
    show ?thesis by (simp add: split_beta s_def)
  next
    case False
    then show ?thesis using Cons.IH [of h g] by simp
  qed
qed

lemma inject_loop_s_resolved:
  "a \<in> set as \<Longrightarrow> a < length h \<Longrightarrow> status (h ! a) = ''good_physical'' \<Longrightarrow>
   status (fst (inject_loop_s random_fn h as yf g) ! a) = ''good''
   \<or> status (fst (inject_loop_s random_fn h as yf g) ! a) = ''defective''"
proof (induction as arbitrary: h g)
  case Nil
  then show ?case by simp
next
  case (Cons b as)
  show ?case
  proof (cases "status (h ! b) = ''good_physical''")
    case True
    define s where "s = (if fst (random_fn g) < yf then ''good'' else ''defective'')"
    have s: "s = ''good'' \<or> s = ''defective''" by (simp add: s_def)
    have eq: "fst (inject_loop_s random_fn h (b # as) yf g) =
        fst (inject_loop_s random_fn (set_status h b s) as yf (snd (random_fn g)))"
      using True by (simp add: split_beta s_def)
    show ?thesis
    proof (cases "a = b")
      case True
      have "status (set_status h b s ! a) = s"
        using True Cons.prems(2) by (simp add: nth_set_status_same)
      moreover from this s have "status (set_status h b s ! a) \<noteq> ''good_physical''" by auto
      ultimately show ?thesis
        unfolding eq using s inject_loop_s_not_good_physical by metis
    next
      case False
      with Cons.prems have "a \<in> set as" by simp
      moreover have "a < length (set_status h b s)"
        using Cons.prems(2) by (simp add: length_set_status)
      moreover have "status (set_status h b s ! a) = ''good_physical''"
        using False Cons.prems(3) by (simp add: nth_set_status_other)
      ultimately show ?thesis unfolding eq by (rule Cons.IH)
    qed
  next
    case False
    then have "a \<noteq> b" using Cons.prems(3) by auto
    with Cons.prems have "a \<in> set as" by simp
    from Cons.IH [OF this Cons.prems(2,3)] False show ?thesis by simp
  qed
qed

text \<open>Copies are allocated after the objects that exist.\<close>

lemma copy_all_extends:
  "\<exists>ext. fst (copy_all h as) = h @ ext \<and> length ext = length as
         \<and> snd (copy_all h as) = [length h..<length h + length as]"
proof (induction as arbitrary: h)
  case Nil
  show ?case by simp
next
  case (Cons a as)
  from Cons [of "h @ [h ! a]"] obtain ext where
    e: "fst (copy_all (h @ [h ! a]) as) = (h @ [h ! a]) @ ext" "length ext = length as"
       "snd (copy_all (h @ [h ! a]) as) = [length (h @ [h ! a])..<length (h @ [h ! a]) + length as]"
    by blast
  have "fst (copy_all h (a # as)) = h @ ((h ! a) # ext)"
    using e(1) by (simp add: dict_copy_def split_beta)
  moreover have "length ((h ! a) # ext) = length (a # as)" using e(2) by simp
  moreover have "snd (copy_all h (a # as)) = [length h..<length h + length (a # as)]"
  proof -
    have lt: "length h < length h + length (a # as)" by simp
    have ar: "length h + length (a # as) = length (h @ [h ! a]) + length as" by simp
    have "snd (copy_all h (a # as)) = length h # snd (copy_all (h @ [h ! a]) as)"
      by (simp add: dict_copy_def split_beta)
    also have "\<dots> = length h # [Suc (length h)..<length (h @ [h ! a]) + length as]"
      by (simp only: e(3) length_append_singleton)
    also have "\<dots> = [length h..<length h + length (a # as)]"
      unfolding ar [symmetric] by (rule upt_conv_Cons [OF lt, symmetric])
    finally show ?thesis .
  qed
  ultimately show ?case by blast
qed

lemma take_classify_all_s:
  "\<forall>a \<in> set as. n \<le> a \<Longrightarrow>
   take n (fst (classify_all_s h as st ps)) = take n h
   \<and> length (fst (classify_all_s h as st ps)) = length h"
proof (induction as arbitrary: h)
  case Nil
  show ?case by simp
next
  case (Cons a as)
  show ?case
  proof (cases "classify_die (h ! a) st ps")
    case (Inl e)
    then show ?thesis by simp
  next
    case (Inr s)
    from Cons.prems have "\<forall>a \<in> set as. n \<le> a" and "n \<le> a" by simp_all
    from Cons.IH [OF this(1), of "set_status h a s"] this(2) Inr
    show ?thesis by (simp add: take_set_status length_set_status)
  qed
qed

lemma take_inject_loop_s:
  "\<forall>a \<in> set as. n \<le> a \<Longrightarrow>
   take n (fst (inject_loop_s random_fn h as yf g)) = take n h"
proof (induction as arbitrary: h g)
  case Nil
  show ?case by simp
next
  case (Cons a as)
  from Cons.prems have lo: "\<forall>a \<in> set as. n \<le> a" and na: "n \<le> a" by simp_all
  show ?case
  proof (cases "status (h ! a) = ''good_physical''")
    case True
    define s where "s = (if fst (random_fn g) < yf then ''good'' else ''defective'')"
    from Cons.IH [OF lo, of "set_status h a s" "snd (random_fn g)"] na True
    show ?thesis by (simp add: split_beta s_def take_set_status)
  next
    case False
    then show ?thesis using Cons.IH [OF lo, of h g] by simp
  qed
qed

lemma run_body_s_frame:
  "take (length h) (fst (run_body_s seed_fn random_fn h base_dice st ps yf random_seed run g)) = h
   \<and> length h \<le> length (fst (run_body_s seed_fn random_fn h base_dice st ps yf random_seed run g))"
proof -
  from copy_all_extends [of h base_dice] obtain ext where
    c1: "fst (copy_all h base_dice) = h @ ext"
    and c2: "snd (copy_all h base_dice) = [length h..<length h + length base_dice]"
    by blast
  define h1 where "h1 = fst (copy_all h base_dice)"
  define dice_copy where "dice_copy = snd (copy_all h base_dice)"
  have lo: "\<forall>a \<in> set dice_copy. length h \<le> a"
    by (simp add: dice_copy_def c2)
  have t1: "take (length h) h1 = h" and l1: "length h \<le> length h1"
    by (simp_all add: h1_def c1)
  define cl where "cl = classify_all_s h1 dice_copy st ps"
  have t2: "take (length h) (fst cl) = h" and l2: "length h \<le> length (fst cl)"
    using take_classify_all_s [OF lo, of h1 st ps] t1 l1 by (simp_all add: cl_def)
  define seed where "seed = (case random_seed of None \<Rightarrow> None | Some s \<Rightarrow> Some (s + run))"
  define inj where "inj = inject_defects_s seed_fn random_fn (fst cl) dice_copy yf seed g"
  have t3: "take (length h) (fst inj) = h" and l3: "length h \<le> length (fst inj)"
    using take_inject_loop_s [OF lo, of random_fn "fst cl" yf
        "case seed of None \<Rightarrow> g | Some s \<Rightarrow> seed_fn s"] t2 l2
    by (simp_all add: inj_def inject_defects_s_def length_inject_loop_s)
  have "fst (run_body_s seed_fn random_fn h base_dice st ps yf random_seed run g) =
      (case snd cl of Some e \<Rightarrow> fst cl | None \<Rightarrow> fst inj)"
    by (simp add: run_body_s_def split_beta cl_def inj_def seed_def dice_copy_def h1_def
        split: option.splits)
  then show ?thesis using t2 l2 t3 l3 by (simp split: option.splits)
qed

lemma run_body_s_unfold:
  "run_body_s seed_fn random_fn h base_dice st ps yf random_seed run g =
     (let c = copy_all h base_dice;
          cl = classify_all_s (fst c) (snd c) st ps
      in case snd cl of
           Some e \<Rightarrow> (fst cl, Inl e)
         | None \<Rightarrow>
             (let inj = inject_defects_s seed_fn random_fn (fst cl) (snd c) yf
                          (case random_seed of None \<Rightarrow> None | Some s \<Rightarrow> Some (s + run)) g
              in (fst inj, Inr (tally (map (\<lambda>a. fst inj ! a) (snd c)) (snd c), snd inj))))"
  by (simp add: run_body_s_def split_beta Let_def split: option.splits)

lemma run_body_s_dice:
  assumes "snd (run_body_s seed_fn random_fn h base_dice st ps yf random_seed run g) = Inr (r, g')"
  shows "dice r = [length h..<length h + length base_dice]"
proof -
  from copy_all_extends [of h base_dice]
  have c2: "snd (copy_all h base_dice) = [length h..<length h + length base_dice]"
    by blast
  show ?thesis
  proof (cases "snd (classify_all_s (fst (copy_all h base_dice)) (snd (copy_all h base_dice)) st ps)")
    case None
    with assms have "r = tally (map (\<lambda>a. fst (inject_defects_s seed_fn random_fn
          (fst (classify_all_s (fst (copy_all h base_dice)) (snd (copy_all h base_dice)) st ps))
          (snd (copy_all h base_dice)) yf
          (case random_seed of None \<Rightarrow> None | Some s \<Rightarrow> Some (s + run)) g) ! a)
          (snd (copy_all h base_dice))) (snd (copy_all h base_dice))"
      by (simp add: run_body_s_unfold Let_def)
    then have "dice r = snd (copy_all h base_dice)" by (simp only: tally_fields)
    then show ?thesis by (simp only: c2)
  next
    case (Some e)
    with assms show ?thesis by (simp add: run_body_s_unfold Let_def)
  qed
qed

lemma run_body_s_cases:
  obtains h' e where "run_body_s seed_fn random_fn h base_dice st ps yf random_seed run g = (h', Inl e)"
  | h' r g' where "run_body_s seed_fn random_fn h base_dice st ps yf random_seed run g = (h', Inr (r, g'))"
proof (cases "run_body_s seed_fn random_fn h base_dice st ps yf random_seed run g")
  case (Pair h' out)
  then show ?thesis
    by (cases out) (auto intro: that)
qed

lemma run_loop_s_frame:
  "take (length h) (fst (run_loop_s seed_fn random_fn h base_dice st ps yf random_seed runs acc g)) = h
   \<and> length h \<le> length (fst (run_loop_s seed_fn random_fn h base_dice st ps yf random_seed runs acc g))"
proof (induction runs arbitrary: h acc g)
  case Nil
  show ?case by simp
next
  case (Cons run runs)
  show ?case
  proof (cases rule: run_body_s_cases [of seed_fn random_fn h base_dice st ps yf random_seed run g])
    case (1 h' e)
    from run_body_s_frame [of h seed_fn random_fn base_dice st ps yf random_seed run g]
    show ?thesis by (simp add: 1)
  next
    case (2 h' r g')
    from run_body_s_frame [of h seed_fn random_fn base_dice st ps yf random_seed run g]
    have b: "take (length h) h' = h" "length h \<le> length h'" by (simp_all add: 2)
    let ?hf = "fst (run_loop_s seed_fn random_fn h' base_dice st ps yf random_seed runs (acc @ [r]) g')"
    from Cons [of h' "acc @ [r]" g'] have f: "take (length h') ?hf = h'" "length h' \<le> length ?hf"
      by simp_all
    have "take (length h) ?hf = take (length h) (take (length h') ?hf)"
      using b(2) by (simp add: min_absorb1)
    also have "\<dots> = h" by (simp only: f(1) b(1))
    finally have "take (length h) ?hf = h" .
    moreover have "length h \<le> length ?hf" using b(2) f(2) by simp
    ultimately show ?thesis by (simp add: 2)
  qed
qed

lemma run_simulation_s_frame:
  "take (length h) (fst (run_simulation_s seed_fn random_fn h sim_runs base_dice st ps yf
                            random_seed g)) = h"
  unfolding run_simulation_s_def by (rule run_loop_s_frame [THEN conjunct1])

lemma run_loop_s_fresh:
  assumes "snd (run_loop_s seed_fn random_fn h base_dice st ps yf random_seed runs acc g) =
             Inr (results, g')"
    and "r \<in> set results"
  shows "r \<in> set acc \<or> (\<forall>a \<in> set (dice r). length h \<le> a)"
  using assms
proof (induction runs arbitrary: h acc g)
  case Nil
  then show ?case by simp
next
  case (Cons run runs)
  show ?case
  proof (cases rule: run_body_s_cases [of seed_fn random_fn h base_dice st ps yf random_seed run g])
    case (1 h' e)
    with Cons.prems(1) show ?thesis by simp
  next
    case (2 h' r1 g1)
    from run_body_s_frame [of h seed_fn random_fn base_dice st ps yf random_seed run g]
    have b: "length h \<le> length h'" by (simp add: 2)
    from run_body_s_dice [of seed_fn random_fn h base_dice st ps yf random_seed run g r1 g1]
    have d: "\<forall>a \<in> set (dice r1). length h \<le> a" by (simp add: 2)
    from Cons.prems(1) have l: "snd (run_loop_s seed_fn random_fn h' base_dice st ps yf
        random_seed runs (acc @ [r1]) g1) = Inr (results, g')"
      by (simp add: 2)
    from Cons.IH [OF l Cons.prems(2)] show ?thesis
    proof
      assume "r \<in> set (acc @ [r1])"
      then have "r \<in> set acc \<or> r = r1" by auto
      then show ?thesis using d by blast
    next
      assume "\<forall>a \<in> set (dice r). length h' \<le> a"
      then have "\<forall>a \<in> set (dice r). length h \<le> a" using b by auto
      then show ?thesis by (rule disjI2)
    qed
  qed
qed

lemma example_store_facts:
  "length example_store = 2" "status (example_store ! 0) = ''good_physical''"
  "status (example_store ! 1) = ''partial''"
  by (simp_all add: example_store_def)

text \<open>
  Claim C9. In the store, \<^verbatim>\<open>inject_defects\<close> keeps the number of objects, the
  \<^verbatim>\<open>x\<close>, \<^verbatim>\<open>y\<close> and \<^verbatim>\<open>corners\<close> of every object, and every object whose status is not
  \<^verbatim>\<open>good_physical\<close> or that is not in the list; a \<^verbatim>\<open>good_physical\<close> die of the list becomes
  \<^verbatim>\<open>good\<close> or \<^verbatim>\<open>defective\<close>. \<^verbatim>\<open>run_simulation\<close> leaves every object that exists before
  the call as it is, the base dice among them, whether it returns or raises, and the dice of
  its results are references to objects allocated during the call.
\<close>

theorem injection_frame:
  assumes "a < length h"
  shows "(let h' = fst (inject_defects_s seed_fn random_fn h dice_list yield_fraction seed g) in
            length h' = length h
          \<and> die_x (h' ! a) = die_x (h ! a) \<and> die_y (h' ! a) = die_y (h ! a)
          \<and> corners (h' ! a) = corners (h ! a)
          \<and> (status (h ! a) \<noteq> ''good_physical'' \<longrightarrow> h' ! a = h ! a)
          \<and> (a \<notin> set dice_list \<longrightarrow> h' ! a = h ! a)
          \<and> (status (h ! a) = ''good_physical'' \<and> a \<in> set dice_list \<longrightarrow>
               status (h' ! a) = ''good'' \<or> status (h' ! a) = ''defective''))
       \<and> (let h' = fst (run_simulation_s seed_fn random_fn h sim_runs base_dice substrate_type
                          substrate_params yield_fraction random_seed g) in
            take (length h) h' = h \<and> h' ! a = h ! a
          \<and> (\<forall>results g' r. snd (run_simulation_s seed_fn random_fn h sim_runs base_dice
                                    substrate_type substrate_params yield_fraction random_seed g)
                               = Inr (results, g') \<and> r \<in> set results \<longrightarrow>
                 (\<forall>b \<in> set (dice r). length h \<le> b)))"
proof -
  define g0 where "g0 = (case seed of None \<Rightarrow> g | Some s \<Rightarrow> seed_fn s)"
  define h1 where "h1 = fst (inject_loop_s random_fn h dice_list yield_fraction g0)"
  have h1: "fst (inject_defects_s seed_fn random_fn h dice_list yield_fraction seed g) = h1"
    by (simp add: inject_defects_s_def h1_def g0_def)
  have i1: "length h1 = length h"
    unfolding h1_def by (rule length_inject_loop_s)
  have i2: "die_x (h1 ! a) = die_x (h ! a) \<and> die_y (h1 ! a) = die_y (h ! a)
      \<and> corners (h1 ! a) = corners (h ! a)"
    unfolding h1_def by (rule inject_loop_s_geometry)
  have i3: "status (h ! a) \<noteq> ''good_physical'' \<longrightarrow> h1 ! a = h ! a"
    unfolding h1_def by (rule impI) (rule inject_loop_s_not_good_physical)
  have i4: "a \<notin> set dice_list \<longrightarrow> h1 ! a = h ! a"
    unfolding h1_def by (rule impI) (rule inject_loop_s_other)
  have i5: "status (h ! a) = ''good_physical'' \<and> a \<in> set dice_list \<longrightarrow>
      status (h1 ! a) = ''good'' \<or> status (h1 ! a) = ''defective''"
  proof (intro impI, elim conjE)
    assume gp: "status (h ! a) = ''good_physical''" and mem: "a \<in> set dice_list"
    show "status (h1 ! a) = ''good'' \<or> status (h1 ! a) = ''defective''"
      unfolding h1_def by (rule inject_loop_s_resolved [OF mem assms gp])
  qed
  define h2 where "h2 = fst (run_simulation_s seed_fn random_fn h sim_runs base_dice substrate_type
                          substrate_params yield_fraction random_seed g)"
  have r1: "take (length h) h2 = h"
    unfolding h2_def by (rule run_simulation_s_frame)
  have "take (length h) h2 ! a = h2 ! a"
    using assms by (rule nth_take)
  then have r2: "h2 ! a = h ! a" by (simp only: r1)
  have r3: "\<forall>results g' r. snd (run_simulation_s seed_fn random_fn h sim_runs base_dice
                                    substrate_type substrate_params yield_fraction random_seed g)
                               = Inr (results, g') \<and> r \<in> set results \<longrightarrow>
                 (\<forall>b \<in> set (dice r). length h \<le> b)"
  proof (intro allI impI)
    fix results g' r
    assume "snd (run_simulation_s seed_fn random_fn h sim_runs base_dice
                  substrate_type substrate_params yield_fraction random_seed g)
               = Inr (results, g') \<and> r \<in> set results"
    then have run: "snd (run_loop_s seed_fn random_fn h base_dice substrate_type substrate_params
          yield_fraction random_seed (map int [0..<nat sim_runs]) [] g) = Inr (results, g')"
      and mem: "r \<in> set results"
      by (simp_all only: run_simulation_s_def)
    from run_loop_s_fresh [OF run mem]
    show "\<forall>b \<in> set (dice r). length h \<le> b" by simp
  qed
  from i2 have i2a: "die_x (h1 ! a) = die_x (h ! a)" and i2b: "die_y (h1 ! a) = die_y (h ! a)"
    and i2c: "corners (h1 ! a) = corners (h ! a)"
    by simp_all
  show ?thesis
    unfolding Let_def h1 h2_def [symmetric]
    by (intro conjI) (rule i1 i2a i2b i2c i3 i4 i5 r1 r2 r3)+
qed

theorem injection_frame_witness:
  "(status (fst (inject_defects_s lcg_seed lcg_random example_store [0, 1] 0.88 (Some 42) 0) ! 0)
      = ''good''
    \<or> status (fst (inject_defects_s lcg_seed lcg_random example_store [0, 1] 0.88 (Some 42) 0) ! 0)
      = ''defective'')
   \<and> corners (fst (inject_defects_s lcg_seed lcg_random example_store [0, 1] 0.88 (Some 42) 0) ! 0)
      = corners (example_store ! 0)
   \<and> fst (inject_defects_s lcg_seed lcg_random example_store [0, 1] 0.88 (Some 42) 0) ! 1
      = example_store ! 1
   \<and> take 2 (fst (run_simulation_s lcg_seed lcg_random example_store 3 [0, 1] ''Wafer''
                    (wafer_params 300 0) 0.88 (Some 42) 0)) = example_store"
proof -
  have a0: "0 < length example_store" and a1: "1 < length example_store"
    by (simp_all add: example_store_facts)
  have gp: "status (example_store ! 0) = ''good_physical'' \<and> (0 :: nat) \<in> set [0, 1]"
    by (simp add: example_store_def)
  have ne: "status (example_store ! 1) \<noteq> ''good_physical''"
    by (simp add: example_store_def)
  note w0 = injection_frame [OF a0, of lcg_seed lcg_random "[0, 1]" "0.88" "Some 42" 0
      3 "[0, 1]" "''Wafer''" "wafer_params 300 0" "Some 42", unfolded Let_def]
  note w1 = injection_frame [OF a1, of lcg_seed lcg_random "[0, 1]" "0.88" "Some 42" 0
      3 "[0, 1]" "''Wafer''" "wafer_params 300 0" "Some 42", unfolded Let_def]
  from w0 gp have c1: "status (fst (inject_defects_s lcg_seed lcg_random example_store [0, 1] 0.88
        (Some 42) 0) ! 0) = ''good''
    \<or> status (fst (inject_defects_s lcg_seed lcg_random example_store [0, 1] 0.88 (Some 42) 0) ! 0)
      = ''defective''"
    by blast
  from w0 have c2: "corners (fst (inject_defects_s lcg_seed lcg_random example_store [0, 1] 0.88
        (Some 42) 0) ! 0) = corners (example_store ! 0)"
    by blast
  from w1 ne have c3: "fst (inject_defects_s lcg_seed lcg_random example_store [0, 1] 0.88
        (Some 42) 0) ! 1 = example_store ! 1"
    by blast
  from w0 have "take (length example_store) (fst (run_simulation_s lcg_seed lcg_random
      example_store 3 [0, 1] ''Wafer'' (wafer_params 300 0) 0.88 (Some 42) 0)) = example_store"
    by blast
  then have c4: "take 2 (fst (run_simulation_s lcg_seed lcg_random example_store 3 [0, 1] ''Wafer''
                    (wafer_params 300 0) 0.88 (Some 42) 0)) = example_store"
    by (simp only: example_store_facts(1))
  from c1 c2 c3 c4 show ?thesis by (intro conjI)
qed

subsection \<open>The store model and the value model agree\<close>

text \<open>
  The copies of a trial are distinct objects, so the store run and the value run of
  \<^verbatim>\<open>run_simulation\<close> on the same base dice raise the same exception or return the same
  results, once the references of the store results are read from the final store.
\<close>

lemma deref_result_tally: "deref_result h (tally ds refs) = tally ds (map (\<lambda>a. h ! a) refs)"
  by (simp add: deref_result_def tally_def Let_def)

lemma copy_all_valid:
  "\<forall>a \<in> set as. a < length h \<Longrightarrow> fst (copy_all h as) = h @ map (\<lambda>a. h ! a) as"
proof (induction as arbitrary: h)
  case Nil
  show ?case by simp
next
  case (Cons a as)
  from Cons.prems have v: "\<forall>b \<in> set as. b < length (h @ [h ! a])" by auto
  have "map (\<lambda>b. (h @ [h ! a]) ! b) as = map (\<lambda>b. h ! b) as"
    using Cons.prems by (simp add: nth_append)
  with Cons.IH [OF v] show ?case
    by (simp add: dict_copy_def split_beta)
qed

lemma classify_all_s_other:
  "a \<notin> set as \<Longrightarrow> fst (classify_all_s h as st ps) ! a = h ! a"
proof (induction as arbitrary: h)
  case Nil
  show ?case by simp
next
  case (Cons b as)
  then have ne: "a \<noteq> b" and ni: "a \<notin> set as" by auto
  show ?case
  proof (cases "classify_die (h ! b) st ps")
    case (Inl e)
    then show ?thesis by simp
  next
    case (Inr s)
    with Cons.IH [OF ni, of "set_status h b s"] ne show ?thesis
      by (simp add: nth_set_status_other)
  qed
qed

lemma map_nth_set_status: "a \<notin> set as \<Longrightarrow> map (\<lambda>b. set_status h a s ! b) as = map (\<lambda>b. h ! b) as"
  by (induction as) (auto simp: nth_set_status_other)

lemma classify_all_s_refines:
  assumes "distinct as" and "\<forall>a \<in> set as. a < length h"
  shows "case classify_all (map (\<lambda>a. h ! a) as) st ps of
           Inl e \<Rightarrow> snd (classify_all_s h as st ps) = Some e
         | Inr ds \<Rightarrow> snd (classify_all_s h as st ps) = None
                     \<and> map (\<lambda>a. fst (classify_all_s h as st ps) ! a) as = ds"
  using assms
proof (induction as arbitrary: h)
  case Nil
  show ?case by simp
next
  case (Cons a as)
  from Cons.prems have ni: "a \<notin> set as" and di: "distinct as" and va: "a < length h"
    and vs: "\<forall>b \<in> set as. b < length h"
    by simp_all
  show ?case
  proof (cases "classify_die (h ! a) st ps")
    case (Inl e)
    then show ?thesis by simp
  next
    case (Inr s)
    define h1 where "h1 = set_status h a s"
    have vs1: "\<forall>b \<in> set as. b < length h1" using vs by (simp add: h1_def length_set_status)
    have same: "map (\<lambda>b. h1 ! b) as = map (\<lambda>b. h ! b) as"
      unfolding h1_def using ni by (rule map_nth_set_status)
    have step: "classify_all_s h (a # as) st ps = classify_all_s h1 as st ps"
      by (simp add: Inr h1_def)
    have head: "fst (classify_all_s h1 as st ps) ! a = (h ! a)\<lparr>status := s\<rparr>"
      using classify_all_s_other [OF ni, of h1 st ps] va by (simp add: h1_def nth_set_status_same)
    note IH = Cons.IH [OF di vs1, unfolded same]
    have lhs: "classify_all (map (\<lambda>b. h ! b) (a # as)) st ps =
        (case classify_all (map (\<lambda>b. h ! b) as) st ps of
           Inl e \<Rightarrow> Inl e
         | Inr ds \<Rightarrow> Inr ((h ! a)\<lparr>status := s\<rparr> # ds))"
      by (simp add: Inr)
    show ?thesis
      unfolding step lhs using IH head
      by (cases "classify_all (map (\<lambda>b. h ! b) as) st ps") simp_all
  qed
qed

lemma inject_loop_s_refines:
  assumes "distinct as" and "\<forall>a \<in> set as. a < length h"
  shows "snd (inject_loop_s random_fn h as yf g) = snd (inject_loop random_fn (map (\<lambda>a. h ! a) as) yf g)
       \<and> map (\<lambda>a. fst (inject_loop_s random_fn h as yf g) ! a) as =
           fst (inject_loop random_fn (map (\<lambda>a. h ! a) as) yf g)"
  using assms
proof (induction as arbitrary: h g)
  case Nil
  show ?case by simp
next
  case (Cons a as)
  from Cons.prems have ni: "a \<notin> set as" and di: "distinct as" and va: "a < length h"
    and vs: "\<forall>b \<in> set as. b < length h"
    by simp_all
  show ?case
  proof (cases "status (h ! a) = ''good_physical''")
    case True
    define s where "s = (if fst (random_fn g) < yf then ''good'' else ''defective'')"
    define h1 where "h1 = set_status h a s"
    define g1 where "g1 = snd (random_fn g)"
    have vs1: "\<forall>b \<in> set as. b < length h1" using vs by (simp add: h1_def length_set_status)
    have same: "map (\<lambda>b. h1 ! b) as = map (\<lambda>b. h ! b) as"
      unfolding h1_def using ni by (rule map_nth_set_status)
    have step: "inject_loop_s random_fn h (a # as) yf g = inject_loop_s random_fn h1 as yf g1"
      using True by (simp add: split_beta h1_def s_def g1_def)
    have head: "fst (inject_loop_s random_fn h1 as yf g1) ! a = (h ! a)\<lparr>status := s\<rparr>"
      using inject_loop_s_other [OF ni, of random_fn h1 yf g1] va
      by (simp add: h1_def nth_set_status_same)
    note IH = Cons.IH [OF di vs1, of g1, unfolded same]
    have lhs: "inject_loop random_fn (map (\<lambda>b. h ! b) (a # as)) yf g =
        ((h ! a)\<lparr>status := s\<rparr> # fst (inject_loop random_fn (map (\<lambda>b. h ! b) as) yf g1),
         snd (inject_loop random_fn (map (\<lambda>b. h ! b) as) yf g1))"
      using True by (simp add: split_beta s_def g1_def)
    show ?thesis
      unfolding step lhs using IH head by simp
  next
    case False
    have head: "fst (inject_loop_s random_fn h as yf g) ! a = h ! a"
      by (rule inject_loop_s_other [OF ni])
    have step: "inject_loop_s random_fn h (a # as) yf g = inject_loop_s random_fn h as yf g"
      using False by simp
    have lhs: "inject_loop random_fn (map (\<lambda>b. h ! b) (a # as)) yf g =
        (h ! a # fst (inject_loop random_fn (map (\<lambda>b. h ! b) as) yf g),
         snd (inject_loop random_fn (map (\<lambda>b. h ! b) as) yf g))"
      using False by (simp add: split_beta)
    show ?thesis
      unfolding step lhs using Cons.IH [OF di vs, of g] head by simp
  qed
qed

lemma map_nth_append_fresh:
  "map (\<lambda>a. (h @ xs) ! a) [length h..<length h + length xs] = xs"
  by (rule nth_equalityI) (simp_all add: nth_append)

lemma length_classify_all_s: "length (fst (classify_all_s h as st ps)) = length h"
proof (induction as arbitrary: h)
  case Nil
  show ?case by simp
next
  case (Cons a as)
  show ?case
  proof (cases "classify_die (h ! a) st ps")
    case (Inl e)
    then show ?thesis by simp
  next
    case (Inr s)
    with Cons [of "set_status h a s"] show ?thesis by (simp add: length_set_status)
  qed
qed

lemma length_run_body_s:
  "length (fst (run_body_s seed_fn random_fn h base_dice st ps yf random_seed run g)) =
   length h + length base_dice"
proof -
  from copy_all_extends [of h base_dice] obtain ext where
    "fst (copy_all h base_dice) = h @ ext" and "length ext = length base_dice"
    by blast
  then have "length (fst (copy_all h base_dice)) = length h + length base_dice" by simp
  then show ?thesis
    by (simp add: run_body_s_unfold Let_def inject_defects_s_def length_inject_loop_s
        length_classify_all_s split: option.splits)
qed

lemma run_body_s_refines:
  assumes "\<forall>a \<in> set base_dice. a < length h"
  shows "case run_body seed_fn random_fn (map (\<lambda>a. h ! a) base_dice) st ps yf random_seed run g of
           Inl e \<Rightarrow>
             snd (run_body_s seed_fn random_fn h base_dice st ps yf random_seed run g) = Inl e
         | Inr (r, g') \<Rightarrow>
             (\<exists>rs. snd (run_body_s seed_fn random_fn h base_dice st ps yf random_seed run g) =
                      Inr (rs, g')
                  \<and> deref_result
                      (fst (run_body_s seed_fn random_fn h base_dice st ps yf random_seed run g))
                      rs = r)"
proof -
  define vals where "vals = map (\<lambda>a. h ! a) base_dice"
  define refs where "refs = [length h..<length h + length base_dice]"
  define h1 where "h1 = h @ vals"
  define seed where "seed = (case random_seed of None \<Rightarrow> None | Some s \<Rightarrow> Some (s + run))"
  define g0 where "g0 = (case seed of None \<Rightarrow> g | Some s \<Rightarrow> seed_fn s)"
  have c1: "fst (copy_all h base_dice) = h1"
    unfolding h1_def vals_def by (rule copy_all_valid [OF assms])
  have c2: "snd (copy_all h base_dice) = refs"
    unfolding refs_def using copy_all_extends [of h base_dice] by blast
  have d: "distinct refs" by (simp add: refs_def)
  have v1: "\<forall>a \<in> set refs. a < length h1" by (simp add: refs_def h1_def vals_def)
  have m1: "map (\<lambda>a. h1 ! a) refs = vals"
    unfolding h1_def refs_def using map_nth_append_fresh [of h vals] by (simp add: vals_def)
  define h2 where "h2 = fst (classify_all_s h1 refs st ps)"
  define h3 where "h3 = fst (inject_loop_s random_fn h2 refs yf g0)"
  note cl = classify_all_s_refines [OF d v1, of st ps, unfolded m1, folded h2_def]
  have v2: "\<forall>a \<in> set refs. a < length h2"
    using v1 by (simp add: h2_def length_classify_all_s)
  note inj = inject_loop_s_refines [OF d v2, of random_fn yf g0, folded h3_def]
  show ?thesis
  proof (cases "classify_all vals st ps")
    case (Inl e)
    with cl have "snd (classify_all_s h1 refs st ps) = Some e" by simp
    then have "snd (run_body_s seed_fn random_fn h base_dice st ps yf random_seed run g) = Inl e"
      by (simp add: run_body_s_unfold Let_def c1 c2)
    moreover have "run_body seed_fn random_fn vals st ps yf random_seed run g = Inl e"
      using Inl by (rule run_body_failed)
    ultimately show ?thesis unfolding vals_def by simp
  next
    case (Inr ds)
    with cl have n: "snd (classify_all_s h1 refs st ps) = None" and m2: "map (\<lambda>a. h2 ! a) refs = ds"
      by simp_all
    define X where "X = fst (inject_loop random_fn ds yf g0)"
    define g' where "g' = snd (inject_loop random_fn ds yf g0)"
    from inj have i1: "snd (inject_loop_s random_fn h2 refs yf g0) = g'"
      and i2: "map (\<lambda>a. h3 ! a) refs = X"
      by (simp_all add: m2 X_def g'_def)
    have s: "run_body_s seed_fn random_fn h base_dice st ps yf random_seed run g =
        (h3, Inr (tally X refs, g'))"
      by (simp add: run_body_s_unfold Let_def c1 c2 n inject_defects_s_def
          seed_def [symmetric] g0_def [symmetric] h2_def [symmetric] h3_def [symmetric] i1 i2)
    have v: "run_body seed_fn random_fn vals st ps yf random_seed run g = Inr (tally X X, g')"
      by (simp add: run_body_classified [OF Inr] Let_def inject_defects_def
          seed_def [symmetric] g0_def [symmetric] X_def g'_def)
    have "deref_result h3 (tally X refs) = tally X X"
      by (simp add: deref_result_tally i2)
    with s v show ?thesis unfolding vals_def by simp
  qed
qed

lemma deref_result_frame:
  assumes "take (length h) h' = h" and "\<forall>a \<in> set (dice r). a < length h"
  shows "deref_result h' r = deref_result h r"
proof -
  have "h' ! a = h ! a" if "a \<in> set (dice r)" for a
  proof -
    from that assms(2) have "a < length h" by simp
    then have "take (length h) h' ! a = h' ! a" by (rule nth_take)
    then show ?thesis by (simp only: assms(1))
  qed
  then have "map (\<lambda>a. h' ! a) (dice r) = map (\<lambda>a. h ! a) (dice r)" by simp
  then show ?thesis by (simp add: deref_result_def)
qed

lemma run_loop_s_refines:
  assumes "\<forall>a \<in> set base_dice. a < length h"
    and "\<forall>r \<in> set acc. \<forall>a \<in> set (dice r). a < length h"
  shows "case run_loop seed_fn random_fn (map (\<lambda>a. h ! a) base_dice) st ps yf random_seed runs
                (map (deref_result h) acc) g of
           Inl e \<Rightarrow>
             snd (run_loop_s seed_fn random_fn h base_dice st ps yf random_seed runs acc g) = Inl e
         | Inr (results, g') \<Rightarrow>
             (\<exists>rs. snd (run_loop_s seed_fn random_fn h base_dice st ps yf random_seed runs acc g) =
                      Inr (rs, g')
                  \<and> map (deref_result
                           (fst (run_loop_s seed_fn random_fn h base_dice st ps yf random_seed
                                   runs acc g))) rs = results)"
  using assms
proof (induction runs arbitrary: h acc g)
  case Nil
  show ?case by simp
next
  case (Cons run runs)
  define vals where "vals = map (\<lambda>a. h ! a) base_dice"
  define h' where "h' = fst (run_body_s seed_fn random_fn h base_dice st ps yf random_seed run g)"
  from run_body_s_frame [of h seed_fn random_fn base_dice st ps yf random_seed run g]
  have fr: "take (length h) h' = h" and le: "length h \<le> length h'"
    by (simp_all add: h'_def)
  note body = run_body_s_refines [OF Cons.prems(1), of seed_fn random_fn st ps yf random_seed run g,
      folded h'_def vals_def]
  show ?case
  proof (cases "run_body seed_fn random_fn vals st ps yf random_seed run g")
    case (Inl e)
    with body have "snd (run_body_s seed_fn random_fn h base_dice st ps yf random_seed run g) = Inl e"
      by simp
    then have "run_body_s seed_fn random_fn h base_dice st ps yf random_seed run g = (h', Inl e)"
      by (simp add: h'_def prod_eq_iff)
    then show ?thesis using Inl by (simp add: vals_def [symmetric])
  next
    case (Inr p)
    obtain r g1 where p: "p = (r, g1)" by (cases p)
    from body Inr p obtain rs1 where
      out: "snd (run_body_s seed_fn random_fn h base_dice st ps yf random_seed run g) = Inr (rs1, g1)"
      and dr: "deref_result h' rs1 = r"
      by auto
    have bs: "run_body_s seed_fn random_fn h base_dice st ps yf random_seed run g =
        (h', Inr (rs1, g1))"
      using out by (simp add: h'_def prod_eq_iff)
    have dice1: "dice rs1 = [length h..<length h + length base_dice]"
      using out by (rule run_body_s_dice)
    have len': "length h' = length h + length base_dice"
      unfolding h'_def by (rule length_run_body_s)
    have vb: "\<forall>a \<in> set base_dice. a < length h'"
      using Cons.prems(1) le by auto
    have va1: "\<forall>r \<in> set acc. \<forall>a \<in> set (dice r). a < length h'"
      using Cons.prems(2) le by (meson less_le_trans)
    have va2: "\<forall>a \<in> set (dice rs1). a < length h'"
      by (simp add: dice1 len')
    have va: "\<forall>r \<in> set (acc @ [rs1]). \<forall>a \<in> set (dice r). a < length h'"
      using va1 va2 by simp
    have same_vals: "map (\<lambda>a. h' ! a) base_dice = vals"
    proof -
      have "h' ! a = h ! a" if "a \<in> set base_dice" for a
      proof -
        from that Cons.prems(1) have "a < length h" by simp
        then have "take (length h) h' ! a = h' ! a" by (rule nth_take)
        then show ?thesis by (simp only: fr)
      qed
      then show ?thesis by (simp add: vals_def)
    qed
    have same_acc: "map (deref_result h') (acc @ [rs1]) = map (deref_result h) acc @ [r]"
      using deref_result_frame [OF fr] Cons.prems(2) dr by simp
    note IH = Cons.IH [OF vb va, of g1, unfolded same_vals same_acc]
    have sl: "run_loop_s seed_fn random_fn h base_dice st ps yf random_seed (run # runs) acc g =
        run_loop_s seed_fn random_fn h' base_dice st ps yf random_seed runs (acc @ [rs1]) g1"
      by (simp add: bs)
    have vl: "run_loop seed_fn random_fn vals st ps yf random_seed (run # runs)
          (map (deref_result h) acc) g =
        run_loop seed_fn random_fn vals st ps yf random_seed runs
          (map (deref_result h) acc @ [r]) g1"
      by (simp add: Inr p)
    show ?thesis
      unfolding sl vals_def [symmetric] vl by (rule IH)
  qed
qed

lemma run_simulation_s_refines:
  assumes "\<forall>a \<in> set base_dice. a < length h"
  shows "case run_simulation seed_fn random_fn sim_runs (map (\<lambda>a. h ! a) base_dice) st ps yf
                random_seed g of
           Inl e \<Rightarrow>
             snd (run_simulation_s seed_fn random_fn h sim_runs base_dice st ps yf random_seed g)
               = Inl e
         | Inr (results, g') \<Rightarrow>
             (\<exists>rs. snd (run_simulation_s seed_fn random_fn h sim_runs base_dice st ps yf
                          random_seed g) = Inr (rs, g')
                  \<and> map (deref_result
                           (fst (run_simulation_s seed_fn random_fn h sim_runs base_dice st ps yf
                                   random_seed g))) rs = results)"
proof -
  have "\<forall>r \<in> set ([] :: ref list trial_result list). \<forall>a \<in> set (dice r). a < length h"
    by simp
  from run_loop_s_refines [OF assms this, of seed_fn random_fn st ps yf random_seed
      "map int [0..<nat sim_runs]" g]
  show ?thesis
    unfolding run_simulation_def run_simulation_s_def list.map .
qed

subsection \<open>Determinism of the injection\<close>

lemma inject_defects_s_seeded:
  assumes "distinct refs1" and "distinct refs2"
    and "\<forall>a \<in> set refs1. a < length h1" and "\<forall>a \<in> set refs2. a < length h2"
    and "map (\<lambda>a. status (h1 ! a)) refs1 = map (\<lambda>a. status (h2 ! a)) refs2"
  shows "map (\<lambda>a. status (fst (inject_defects_s seed_fn random_fn h1 refs1 yf (Some s) g1) ! a)) refs1 =
         map (\<lambda>a. status (fst (inject_defects_s seed_fn random_fn h2 refs2 yf (Some s) g2) ! a)) refs2"
proof -
  have st: "map status (map (\<lambda>a. h1 ! a) refs1) = map status (map (\<lambda>a. h2 ! a) refs2)"
    using assms(5) by (simp add: comp_def)
  have "map (\<lambda>a. status (fst (inject_defects_s seed_fn random_fn h1 refs1 yf (Some s) g1) ! a)) refs1 =
        map status (map (\<lambda>a. fst (inject_loop_s random_fn h1 refs1 yf (seed_fn s)) ! a) refs1)"
    by (simp add: inject_defects_s_def comp_def)
  also have "\<dots> = map status (fst (inject_loop random_fn (map (\<lambda>a. h1 ! a) refs1) yf (seed_fn s)))"
    by (simp only: inject_loop_s_refines [OF assms(1,3), THEN conjunct2])
  also have "\<dots> = map status (fst (inject_loop random_fn (map (\<lambda>a. h2 ! a) refs2) yf (seed_fn s)))"
    by (rule inject_loop_deterministic [OF st, THEN conjunct1])
  also have "\<dots> = map status (map (\<lambda>a. fst (inject_loop_s random_fn h2 refs2 yf (seed_fn s)) ! a) refs2)"
    by (simp only: inject_loop_s_refines [OF assms(2,4), THEN conjunct2])
  also have "\<dots> =
      map (\<lambda>a. status (fst (inject_defects_s seed_fn random_fn h2 refs2 yf (Some s) g2) ! a)) refs2"
    by (simp add: inject_defects_s_def comp_def)
  finally show ?thesis .
qed

text \<open>
  Claim C7, as the code has it. With a seed, \<^verbatim>\<open>inject_defects\<close> gives two lists of pairwise
  distinct dictionaries with the same statuses in the same order the same statuses, whatever
  the state of the generator before the call. In \<^verbatim>\<open>run_simulation\<close> with a seed, the dice of
  trial \<open>k\<close> are the classified base dice injected with seed \<open>base_seed + k\<close>, so the results
  of a run with \<open>n\<close> trials are the first \<open>n\<close> results of any run with more trials.
\<close>

theorem injection_deterministic:
  assumes "classify_all base_dice substrate_type substrate_params = Inr classified"
  shows "(distinct refs1 \<and> distinct refs2
          \<and> (\<forall>a \<in> set refs1. a < length h1) \<and> (\<forall>a \<in> set refs2. a < length h2)
          \<and> map (\<lambda>a. status (h1 ! a)) refs1 = map (\<lambda>a. status (h2 ! a)) refs2 \<longrightarrow>
            map (\<lambda>a. status (fst (inject_defects_s seed_fn random_fn h1 refs1 yield_fraction
                                     (Some seed) g1) ! a)) refs1 =
            map (\<lambda>a. status (fst (inject_defects_s seed_fn random_fn h2 refs2 yield_fraction
                                     (Some seed) g2) ! a)) refs2)
       \<and> (\<exists>g'. run_simulation seed_fn random_fn n base_dice substrate_type substrate_params
                   yield_fraction (Some base_seed) g =
                 Inr (map (\<lambda>k. let ds = fst (inject_defects seed_fn random_fn classified
                                               yield_fraction (Some (base_seed + int k)) g0)
                                in tally ds ds) [0..<nat n], g'))
       \<and> (n \<le> m \<longrightarrow>
            (\<exists>r1 r2 ga gb.
               run_simulation seed_fn random_fn n base_dice substrate_type substrate_params
                 yield_fraction (Some base_seed) g1 = Inr (r1, ga)
             \<and> run_simulation seed_fn random_fn m base_dice substrate_type substrate_params
                 yield_fraction (Some base_seed) g2 = Inr (r2, gb)
             \<and> take (nat n) r2 = r1))"
proof (intro conjI impI)
  assume "distinct refs1 \<and> distinct refs2
          \<and> (\<forall>a \<in> set refs1. a < length h1) \<and> (\<forall>a \<in> set refs2. a < length h2)
          \<and> map (\<lambda>a. status (h1 ! a)) refs1 = map (\<lambda>a. status (h2 ! a)) refs2"
  then show "map (\<lambda>a. status (fst (inject_defects_s seed_fn random_fn h1 refs1 yield_fraction
                                     (Some seed) g1) ! a)) refs1 =
            map (\<lambda>a. status (fst (inject_defects_s seed_fn random_fn h2 refs2 yield_fraction
                                     (Some seed) g2) ! a)) refs2"
    by (intro inject_defects_s_seeded) simp_all
next
  show "\<exists>g'. run_simulation seed_fn random_fn n base_dice substrate_type substrate_params
                   yield_fraction (Some base_seed) g =
                 Inr (map (\<lambda>k. let ds = fst (inject_defects seed_fn random_fn classified
                                               yield_fraction (Some (base_seed + int k)) g0)
                                in tally ds ds) [0..<nat n], g')"
    by (rule run_simulation_seeded [OF assms])
next
  assume nm: "n \<le> m"
  let ?trial = "\<lambda>k. let ds = fst (inject_defects seed_fn random_fn classified
                                  yield_fraction (Some (base_seed + int k)) g0)
                    in tally ds ds"
  from run_simulation_seeded [OF assms, of seed_fn random_fn n yield_fraction base_seed g1 g0]
  obtain ga where a: "run_simulation seed_fn random_fn n base_dice substrate_type substrate_params
      yield_fraction (Some base_seed) g1 = Inr (map ?trial [0..<nat n], ga)"
    by blast
  from run_simulation_seeded [OF assms, of seed_fn random_fn m yield_fraction base_seed g2 g0]
  obtain gb where b: "run_simulation seed_fn random_fn m base_dice substrate_type substrate_params
      yield_fraction (Some base_seed) g2 = Inr (map ?trial [0..<nat m], gb)"
    by blast
  have "nat n \<le> nat m" using nm by simp
  then have "take (nat n) (map ?trial [0..<nat m]) = map ?trial [0..<nat n]"
    by (simp only: take_map take_upt add_0 min_absorb2 [OF \<open>nat n \<le> nat m\<close>])
  with a b show "\<exists>r1 r2 ga gb.
               run_simulation seed_fn random_fn n base_dice substrate_type substrate_params
                 yield_fraction (Some base_seed) g1 = Inr (r1, ga)
             \<and> run_simulation seed_fn random_fn m base_dice substrate_type substrate_params
                 yield_fraction (Some base_seed) g2 = Inr (r2, gb)
             \<and> take (nat n) r2 = r1"
    by blast
qed

theorem injection_deterministic_witness:
  "map (\<lambda>a. status (fst (inject_defects_s lcg_seed lcg_random triple_store [0, 1] 0.45
                           (Some 42) 3) ! a)) [0, 1] =
   map (\<lambda>a. status (fst (inject_defects_s lcg_seed lcg_random triple_store [2, 1] 0.45
                           (Some 42) 9) ! a)) [2, 1]
   \<and> (\<exists>r1 r2 ga gb.
         run_simulation lcg_seed lcg_random 5 [make_die 0 0 5 5, make_die 148 0 5 5]
           ''Wafer'' (wafer_params 300 0) 0.45 (Some 42) 3 = Inr (r1, ga)
       \<and> run_simulation lcg_seed lcg_random 10 [make_die 0 0 5 5, make_die 148 0 5 5]
           ''Wafer'' (wafer_params 300 0) 0.45 (Some 42) 9 = Inr (r2, gb)
       \<and> take 5 r2 = r1)"
proof -
  have "valid_inputs [make_die 0 0 5 5, make_die 148 0 5 5] ''Wafer'' (wafer_params 300 0)"
    by (rule wafer_300_valid) (simp add: make_die_def)
  from classify_all_valid [OF this]
  obtain cls where cls: "classify_all [make_die 0 0 5 5, make_die 148 0 5 5] ''Wafer''
      (wafer_params 300 0) = Inr cls"
    by blast
  have st: "distinct [0 :: nat, 1] \<and> distinct [2 :: nat, 1]
      \<and> (\<forall>a \<in> set [0, 1]. a < length triple_store) \<and> (\<forall>a \<in> set [2, 1]. a < length triple_store)
      \<and> map (\<lambda>a. status (triple_store ! a)) [0, 1] = map (\<lambda>a. status (triple_store ! a)) [2, 1]"
    by (simp add: triple_store_def)
  have nm: "(5 :: int) \<le> 10" by simp
  from injection_deterministic [OF cls, where
      ?refs1.0 = "[0, 1]" and ?refs2.0 = "[2, 1]" and ?h1.0 = triple_store and ?h2.0 = triple_store
      and seed_fn = lcg_seed and random_fn = lcg_random and yield_fraction = "0.45"
      and seed = 42 and ?g1.0 = 3 and ?g2.0 = 9 and n = 5 and m = 10 and base_seed = 42]
    st nm
  show ?thesis by simp
qed

text \<open>
  Claim C7 as stated fails for a list that holds one dictionary twice. The three dice of the
  store have the same status, so the lists \<open>[d, d]\<close> and \<open>[e, f]\<close> have the same statuses in
  the same order. With seed 42 and yield fraction 0.45 the first draw is below the yield
  fraction and the second is not: \<open>[d, d]\<close> ends with the statuses \<^verbatim>\<open>good\<close>, \<^verbatim>\<open>good\<close> (the
  second visit finds \<open>d\<close> resolved and draws nothing), \<open>[e, f]\<close> with \<^verbatim>\<open>good\<close>, \<^verbatim>\<open>defective\<close>.
\<close>

theorem injection_aliased_list_differs:
  "status (triple_store ! 0) = ''good_physical'' \<and> status (triple_store ! 1) = ''good_physical''
   \<and> status (triple_store ! 2) = ''good_physical''
   \<and> status (fst (inject_defects_s lcg_seed lcg_random triple_store [0, 0] 0.45 (Some 42) 0) ! 0)
       = ''good''
   \<and> status (fst (inject_defects_s lcg_seed lcg_random triple_store [1, 2] 0.45 (Some 42) 0) ! 1)
       = ''good''
   \<and> status (fst (inject_defects_s lcg_seed lcg_random triple_store [1, 2] 0.45 (Some 42) 0) ! 2)
       = ''defective''"
  by (simp add: triple_store_def inject_defects_s_def set_status_def lcg_seed_def lcg_random_def
      make_die_def)

end
